theory Spec2Isabelle
  imports Complex_Main
begin

section \<open>JavaScript values\<close>

text \<open>
  The AI service works on values that come out of \<^verbatim>\<open>JSON.parse\<close> and
  \<^verbatim>\<open>response.json()\<close>. Such a value is a tree of null, booleans, numbers, strings,
  arrays and objects. An object keeps its members in the order they were read; a key that
  occurs twice is resolved at lookup (the later member wins, as in JavaScript).
  Strings are lists of 8-bit characters standing for code units. A number is kept at its
  exact value: the rounding of a literal to a binary64 float is not part of the model.
  A property that is absent reads as \<^verbatim>\<open>undefined\<close>, which is \<open>None\<close> of
  \<open>json option\<close>.
\<close>

datatype json =
    JNull
  | JBool bool
  | JNumber rat
  | JString string
  | JArray "json list"
  | JObject "(string \<times> json) list"

type_synonym jsval = "json option"

text \<open>The result of an arithmetic coercion: a number, an infinity or NaN.\<close>

datatype number = Num rat | PosInf | NegInf | NaN

text \<open>
  Every \<^verbatim>\<open>Error\<close> the service throws is identified here by its message. The
  messages that embed the message of a caught error take that error as an argument.
\<close>

datatype error =
    NoJsonFound
  | SyntaxError
  | InvalidStructure
  | TypeError
  | FailedToParse error
  | NetworkFailure
  | ApiError string nat
  | InvalidResponseFormat
  | UnsupportedService string
  | DiagnosisFailed error
  | InvalidService string
  | ApiKeyNotFound string
  | AzureIncomplete

subsection \<open>Characters\<close>

definition is_digit :: "char \<Rightarrow> bool" where
  "is_digit c \<longleftrightarrow> (48::nat) \<le> of_char c \<and> of_char c \<le> (57::nat)"

definition digit_val :: "char \<Rightarrow> nat" where
  "digit_val c = of_char c - 48"

definition digits_val :: "string \<Rightarrow> nat" where
  "digits_val ds = foldl (\<lambda>n c. 10 * n + digit_val c) 0 ds"

definition hex_val :: "char \<Rightarrow> nat option" where
  "hex_val c =
     (let n = (of_char c :: nat) in
      if 48 \<le> n \<and> n \<le> 57 then Some (n - 48)
      else if 65 \<le> n \<and> n \<le> 70 then Some (n - 55)
      else if 97 \<le> n \<and> n \<le> 102 then Some (n - 87)
      else None)"

text \<open>The four white space characters of the JSON grammar: space, tab, line feed, carriage return.\<close>

definition json_ws :: "char \<Rightarrow> bool" where
  "json_ws c \<longleftrightarrow> c = CHR '' '' \<or> c = CHR 0x09 \<or> c = CHR 0x0A \<or> c = CHR 0x0D"

definition skip_ws :: "string \<Rightarrow> string" where
  "skip_ws s = dropWhile json_ws s"

text \<open>
  White space and line terminators of the language itself, as \<^verbatim>\<open>String.prototype.trim\<close>
  and the string-to-number conversion strip them: tab, line feed, vertical tab, form feed,
  carriage return, space and no-break space (the ones that fit a single 8-bit code unit).
\<close>

definition js_space :: "char \<Rightarrow> bool" where
  "js_space c \<longleftrightarrow> (of_char c :: nat) \<in> {9, 10, 11, 12, 13, 32, 160}"

definition trim :: "string \<Rightarrow> string" where
  "trim s = rev (dropWhile js_space (rev (dropWhile js_space s)))"

section \<open>\<^verbatim>\<open>JSON.parse\<close>\<close>

text \<open>
  A recursive-descent reader of the JSON grammar. \<open>lex_string\<close> reads a string body after
  its opening quote; an escape \<^verbatim>\<open>\uXXXX\<close> above \<^verbatim>\<open>00FF\<close> has no 8-bit
  character and is outside the model (the reader gives up on it, where
  \<^verbatim>\<open>JSON.parse\<close> accepts it). \<open>lex_number\<close> reads a literal at its exact value, where
  \<^verbatim>\<open>JSON.parse\<close> rounds it to the nearest binary64 float. The theorems on the
  normalizer take the parsed value as given and relate the outcome to it, so they do not
  rest on either point.
\<close>

definition unescape :: "char \<Rightarrow> char option" where
  "unescape e =
     (if e = CHR 0x22 then Some (CHR 0x22)
      else if e = CHR 0x5C then Some (CHR 0x5C)
      else if e = CHR ''/'' then Some (CHR ''/'')
      else if e = CHR ''b'' then Some (CHR 0x08)
      else if e = CHR ''f'' then Some (CHR 0x0C)
      else if e = CHR ''n'' then Some (CHR 0x0A)
      else if e = CHR ''r'' then Some (CHR 0x0D)
      else if e = CHR ''t'' then Some (CHR 0x09)
      else None)"

definition hex4 :: "char \<Rightarrow> char \<Rightarrow> char \<Rightarrow> char \<Rightarrow> nat option" where
  "hex4 a b c d =
     (case (hex_val a, hex_val b, hex_val c, hex_val d) of
        (Some x, Some y, Some z, Some w) \<Rightarrow> Some (((x * 16 + y) * 16 + z) * 16 + w)
      | _ \<Rightarrow> None)"

definition cons_char :: "char \<Rightarrow> (string \<times> string) option \<Rightarrow> (string \<times> string) option" where
  "cons_char c r = (case r of None \<Rightarrow> None | Some (s, rest) \<Rightarrow> Some (c # s, rest))"

fun lex_string :: "string \<Rightarrow> (string \<times> string) option" where
  "lex_string [] = None"
| "lex_string (c # cs) =
     (if c = CHR 0x22 then Some ([], cs)
      else if c = CHR 0x5C then
        (case cs of
           [] \<Rightarrow> None
         | e # cs' \<Rightarrow>
             if e = CHR ''u'' then
               (case cs' of
                  h1 # h2 # h3 # h4 # rest \<Rightarrow>
                    (case hex4 h1 h2 h3 h4 of
                       None \<Rightarrow> None
                     | Some n \<Rightarrow> if n < 256 then cons_char (char_of n) (lex_string rest) else None)
                | _ \<Rightarrow> None)
             else
               (case unescape e of
                  None \<Rightarrow> None
                | Some ch \<Rightarrow> cons_char ch (lex_string cs')))
      else if (of_char c :: nat) < 32 then None
      else cons_char c (lex_string cs))"

text \<open>
  A number literal: an optional minus, an integer part without a leading zero, an
  optional fraction and an optional exponent.
\<close>

definition lex_int :: "string \<Rightarrow> (string \<times> string) option" where
  "lex_int s =
     (case s of
        [] \<Rightarrow> None
      | c # cs \<Rightarrow>
          if c = CHR ''0'' then Some ([c], cs)
          else if is_digit c then Some (c # takeWhile is_digit cs, dropWhile is_digit cs)
          else None)"

definition lex_frac :: "string \<Rightarrow> (string \<times> string) option" where
  "lex_frac s =
     (case s of
        c # cs \<Rightarrow>
          if c = CHR ''.'' then
            (if takeWhile is_digit cs = [] then None
             else Some (takeWhile is_digit cs, dropWhile is_digit cs))
          else Some ([], s)
      | [] \<Rightarrow> Some ([], s))"

definition lex_exp :: "string \<Rightarrow> ((bool \<times> string) \<times> string) option" where
  "lex_exp s =
     (case s of
        c # cs \<Rightarrow>
          if c = CHR ''e'' \<or> c = CHR ''E'' then
            (let (neg, ds) =
               (case cs of
                  [] \<Rightarrow> (False, cs)
                | g # cs' \<Rightarrow> if g = CHR ''-'' then (True, cs')
                            else if g = CHR ''+'' then (False, cs') else (False, cs))
             in if takeWhile is_digit ds = [] then None
                else Some ((neg, takeWhile is_digit ds), dropWhile is_digit ds))
          else Some ((False, []), s)
      | [] \<Rightarrow> Some ((False, []), s))"

definition decimal :: "string \<Rightarrow> string \<Rightarrow> bool \<times> string \<Rightarrow> rat" where
  "decimal ip fp ex =
     (let m = of_nat (digits_val ip) + of_nat (digits_val fp) / 10 ^ length fp
      in if fst ex then m / 10 ^ digits_val (snd ex) else m * 10 ^ digits_val (snd ex))"

definition lex_number :: "string \<Rightarrow> (rat \<times> string) option" where
  "lex_number s =
     (let (neg, s0) = (case s of [] \<Rightarrow> (False, s)
                       | c # cs \<Rightarrow> if c = CHR ''-'' then (True, cs) else (False, s))
      in case lex_int s0 of
           None \<Rightarrow> None
         | Some (ip, s1) \<Rightarrow>
             (case lex_frac s1 of
                None \<Rightarrow> None
              | Some (fp, s2) \<Rightarrow>
                  (case lex_exp s2 of
                     None \<Rightarrow> None
                   | Some (ex, s3) \<Rightarrow>
                       Some (if neg then - decimal ip fp ex else decimal ip fp ex, s3))))"

definition lex_literal :: "string \<Rightarrow> (json \<times> string) option" where
  "lex_literal s =
     (if take 4 s = ''true'' then Some (JBool True, drop 4 s)
      else if take 5 s = ''false'' then Some (JBool False, drop 5 s)
      else if take 4 s = ''null'' then Some (JNull, drop 4 s)
      else None)"

text \<open>
  The three mutually recursive readers take a bound on the depth of their calls. Each
  call consumes at least one character, so \<open>JSON_parse\<close> starts them with more than the
  length of the text; lemma \<open>JSON_parse_fuel\<close> below shows that this bound is never
  what makes a parse fail.
\<close>

fun parse_value :: "nat \<Rightarrow> string \<Rightarrow> (json \<times> string) option"
  and parse_elements :: "nat \<Rightarrow> json list \<Rightarrow> string \<Rightarrow> (json \<times> string) option"
  and parse_members :: "nat \<Rightarrow> (string \<times> json) list \<Rightarrow> string \<Rightarrow> (json \<times> string) option"
where
  "parse_value 0 s = None"
| "parse_value (Suc n) s =
     (case skip_ws s of
        [] \<Rightarrow> None
      | c # cs \<Rightarrow>
          if c = CHR ''{'' then
            (case skip_ws cs of
               [] \<Rightarrow> None
             | d # r \<Rightarrow> if d = CHR ''}'' then Some (JObject [], r) else parse_members n [] cs)
          else if c = CHR ''['' then
            (case skip_ws cs of
               [] \<Rightarrow> None
             | d # r \<Rightarrow> if d = CHR '']'' then Some (JArray [], r) else parse_elements n [] cs)
          else if c = CHR 0x22 then
            (case lex_string cs of None \<Rightarrow> None | Some (str, r) \<Rightarrow> Some (JString str, r))
          else if c = CHR ''-'' \<or> is_digit c then
            (case lex_number (c # cs) of None \<Rightarrow> None | Some (x, r) \<Rightarrow> Some (JNumber x, r))
          else lex_literal (c # cs))"
| "parse_elements 0 acc s = None"
| "parse_elements (Suc n) acc s =
     (case parse_value n s of
        None \<Rightarrow> None
      | Some (v, r) \<Rightarrow>
          (case skip_ws r of
             [] \<Rightarrow> None
           | d # r' \<Rightarrow>
               if d = CHR '','' then parse_elements n (acc @ [v]) r'
               else if d = CHR '']'' then Some (JArray (acc @ [v]), r')
               else None))"
| "parse_members 0 acc s = None"
| "parse_members (Suc n) acc s =
     (case skip_ws s of
        [] \<Rightarrow> None
      | q # r \<Rightarrow>
          if q = CHR 0x22 then
            (case lex_string r of
               None \<Rightarrow> None
             | Some (k, r1) \<Rightarrow>
                 (case skip_ws r1 of
                    [] \<Rightarrow> None
                  | c # r2 \<Rightarrow>
                      if c = CHR '':'' then
                        (case parse_value n r2 of
                           None \<Rightarrow> None
                         | Some (v, r3) \<Rightarrow>
                             (case skip_ws r3 of
                                [] \<Rightarrow> None
                              | d # r4 \<Rightarrow>
                                  if d = CHR '','' then parse_members n (acc @ [(k, v)]) r4
                                  else if d = CHR ''}'' then Some (JObject (acc @ [(k, v)]), r4)
                                  else None))
                      else None))
          else None)"

definition JSON_parse :: "string \<Rightarrow> json option" where
  "JSON_parse s =
     (case parse_value (Suc (length s)) s of
        None \<Rightarrow> None
      | Some (v, r) \<Rightarrow> if skip_ws r = [] then Some v else None)"

section \<open>Property access and coercions\<close>

definition get_field :: "(string \<times> json) list \<Rightarrow> string \<Rightarrow> jsval" where
  "get_field kvs k = map_of (rev kvs) k"

text \<open>
  Reading a named property \<^verbatim>\<open>v.k\<close> of a value that is neither null nor undefined.
  Only an object has members of its own; the names read by the service are no built-in
  property of strings, numbers, booleans or arrays.
\<close>

definition read_member :: "json \<Rightarrow> string \<Rightarrow> jsval" where
  "read_member v k = (case v of JObject kvs \<Rightarrow> get_field kvs k | _ \<Rightarrow> None)"

text \<open>Reading \<^verbatim>\<open>v.k\<close> of any value: null and undefined throw a TypeError.\<close>

definition read_prop :: "jsval \<Rightarrow> string \<Rightarrow> error + jsval" where
  "read_prop v k =
     (case v of
        None \<Rightarrow> Inl TypeError
      | Some JNull \<Rightarrow> Inl TypeError
      | Some w \<Rightarrow> Inr (read_member w k))"

text \<open>Reading \<^verbatim>\<open>v[0]\<close>.\<close>

definition index0 :: "jsval \<Rightarrow> error + jsval" where
  "index0 v =
     (case v of
        None \<Rightarrow> Inl TypeError
      | Some JNull \<Rightarrow> Inl TypeError
      | Some (JArray xs) \<Rightarrow> Inr (case xs of [] \<Rightarrow> None | x # _ \<Rightarrow> Some x)
      | Some (JString s) \<Rightarrow> Inr (case s of [] \<Rightarrow> None | c # _ \<Rightarrow> Some (JString [c]))
      | Some (JObject kvs) \<Rightarrow> Inr (get_field kvs ''0'')
      | Some _ \<Rightarrow> Inr None)"

definition bind :: "error + 'a \<Rightarrow> ('a \<Rightarrow> error + 'b) \<Rightarrow> error + 'b" where
  "bind m f = (case m of Inl e \<Rightarrow> Inl e | Inr x \<Rightarrow> f x)"

fun truthy :: "jsval \<Rightarrow> bool" where
  "truthy None = False"
| "truthy (Some JNull) = False"
| "truthy (Some (JBool b)) = b"
| "truthy (Some (JNumber x)) = (x \<noteq> 0)"
| "truthy (Some (JString s)) = (s \<noteq> [])"
| "truthy (Some (JArray xs)) = True"
| "truthy (Some (JObject kvs)) = True"

text \<open>\<^verbatim>\<open>a || b\<close> where \<open>b\<close> is a literal.\<close>

definition or_else :: "jsval \<Rightarrow> json \<Rightarrow> json" where
  "or_else a b = (case a of None \<Rightarrow> b | Some v \<Rightarrow> if truthy a then v else b)"

fun isArray :: "jsval \<Rightarrow> bool" where
  "isArray (Some (JArray xs)) = True"
| "isArray _ = False"

subsection \<open>Conversion to a number\<close>

text \<open>
  A string converts to the number its trimmed text denotes: the empty text is 0, then
  the infinities, a hexadecimal, octal or binary integer, or a signed decimal literal;
  anything else is NaN.
\<close>

definition radix_val :: "nat \<Rightarrow> string \<Rightarrow> number" where
  "radix_val r ds =
     (if ds \<noteq> [] \<and> (\<forall>c \<in> set ds. case hex_val c of None \<Rightarrow> False | Some d \<Rightarrow> d < r)
      then Num (of_nat (foldl (\<lambda>n c. r * n + the (hex_val c)) 0 ds))
      else NaN)"

definition str_decimal :: "string \<Rightarrow> number" where
  "str_decimal s =
     (let (neg, s0) =
            (case s of
               [] \<Rightarrow> (False, s)
             | c # cs \<Rightarrow> if c = CHR ''-'' then (True, cs)
                         else if c = CHR ''+'' then (False, cs) else (False, s));
          ip = takeWhile is_digit s0;
          s1 = dropWhile is_digit s0;
          (dot, s1') =
            (case s1 of
               [] \<Rightarrow> (False, s1)
             | c # cs \<Rightarrow> if c = CHR ''.'' then (True, cs) else (False, s1));
          fp = (if dot then takeWhile is_digit s1' else []);
          s2 = (if dot then dropWhile is_digit s1' else s1)
      in if ip = [] \<and> fp = [] then NaN
         else (case lex_exp s2 of
                 Some (ex, []) \<Rightarrow> Num (if neg then - decimal ip fp ex else decimal ip fp ex)
               | _ \<Rightarrow> NaN))"

definition StringToNumber :: "string \<Rightarrow> number" where
  "StringToNumber str =
     (let s = trim str in
      if s = [] then Num 0
      else if s = ''Infinity'' \<or> s = ''+Infinity'' then PosInf
      else if s = ''-Infinity'' then NegInf
      else if take 2 s = ''0x'' \<or> take 2 s = ''0X'' then radix_val 16 (drop 2 s)
      else if take 2 s = ''0o'' \<or> take 2 s = ''0O'' then radix_val 8 (drop 2 s)
      else if take 2 s = ''0b'' \<or> take 2 s = ''0B'' then radix_val 2 (drop 2 s)
      else str_decimal s)"

text \<open>
  An object or an array converts through its primitive, which is its text. The text of an
  object is what its \<^verbatim>\<open>toString\<close> returns: the inherited one gives
  \<^verbatim>\<open>[object Object]\<close>, but a member of its own named \<^verbatim>\<open>toString\<close> hides the
  inherited method and, being no function, leaves the object without a primitive: the
  conversion throws a TypeError. The text of an array joins the texts of its elements
  (null as the empty text) with commas, so an array has no primitive when one of its
  elements has none.
\<close>

fun no_primitive :: "json \<Rightarrow> bool" where
  "no_primitive (JObject kvs) = (get_field kvs ''toString'' \<noteq> None)"
| "no_primitive (JArray xs) = (\<exists>x \<in> set xs. no_primitive x)"
| "no_primitive v = False"

text \<open>
  The number of a value. For an array that has a primitive: no element gives the empty
  text, one element gives the text of that element (for a number, the text that converts
  back to it), and two or more give a text with a comma, which is no number.
\<close>

fun ToNumber :: "json \<Rightarrow> error + number" where
  "ToNumber JNull = Inr (Num 0)"
| "ToNumber (JBool b) = Inr (Num (if b then 1 else 0))"
| "ToNumber (JNumber x) = Inr (Num x)"
| "ToNumber (JString s) = Inr (StringToNumber s)"
| "ToNumber (JObject kvs) = (if no_primitive (JObject kvs) then Inl TypeError else Inr NaN)"
| "ToNumber (JArray []) = Inr (Num 0)"
| "ToNumber (JArray [x]) =
     (case x of
        JNull \<Rightarrow> Inr (Num 0)
      | JBool b \<Rightarrow> Inr NaN
      | JObject kvs \<Rightarrow> (if no_primitive x then Inl TypeError else Inr NaN)
      | _ \<Rightarrow> ToNumber x)"
| "ToNumber (JArray (x # y # zs)) =
     (if no_primitive (JArray (x # y # zs)) then Inl TypeError else Inr NaN)"

fun num_le :: "number \<Rightarrow> number \<Rightarrow> bool" where
  "num_le (Num x) (Num y) = (x \<le> y)"
| "num_le NegInf b = (b \<noteq> NaN)"
| "num_le a PosInf = (a \<noteq> NaN)"
| "num_le a b = False"

definition Math_max :: "number \<Rightarrow> number \<Rightarrow> number" where
  "Math_max a b = (if a = NaN \<or> b = NaN then NaN else if num_le a b then b else a)"

definition Math_min :: "number \<Rightarrow> number \<Rightarrow> number" where
  "Math_min a b = (if a = NaN \<or> b = NaN then NaN else if num_le a b then a else b)"

section \<open>The response normalizer\<close>

record DiagnosisRecord =
  condition :: jsval
  confidence :: number
  urgency :: json
  steps :: json
  description :: json

text \<open>
  \<^verbatim>\<open>responseText.match(/\{[\s\S]*\}/)\<close>: the leftmost match starts at the first
  opening brace and, the star being greedy, ends at the last closing brace after it.
\<close>

definition match_braces :: "string \<Rightarrow> string option" where
  "match_braces s =
     (case dropWhile (\<lambda>c. c \<noteq> CHR ''{'') s of
        [] \<Rightarrow> None
      | b # rest \<Rightarrow>
          if CHR ''}'' \<in> set rest
          then Some (b # rev (dropWhile (\<lambda>c. c \<noteq> CHR ''}'') (rev rest)))
          else None)"

text \<open>
  The first half of the \<^verbatim>\<open>try\<close> block: the brace match, \<^verbatim>\<open>JSON.parse\<close> and
  the check of the structure. It yields the elements of \<^verbatim>\<open>parsed.conditions\<close>.
  A response text that is no string has no \<^verbatim>\<open>match\<close> method to call.
\<close>

definition extract_conditions :: "jsval \<Rightarrow> error + json list" where
  "extract_conditions responseText =
     (case responseText of
        Some (JString text) \<Rightarrow>
          (case match_braces text of
             None \<Rightarrow> Inl NoJsonFound
           | Some jsonMatch \<Rightarrow>
               (case JSON_parse jsonMatch of
                  None \<Rightarrow> Inl SyntaxError
                | Some parsed \<Rightarrow>
                    bind (read_prop (Some parsed) ''conditions'') (\<lambda>conditions.
                      if \<not> truthy conditions \<or> \<not> isArray conditions then Inl InvalidStructure
                      else (case conditions of
                              Some (JArray cs) \<Rightarrow> Inr cs
                            | _ \<Rightarrow> Inl InvalidStructure))))
      | _ \<Rightarrow> Inl TypeError)"

text \<open>
  The callback of \<^verbatim>\<open>parsed.conditions.map\<close>. Its first property read throws on a
  null element, and \<^verbatim>\<open>Math.max\<close> throws when the confidence has no primitive;
  otherwise the object literal is returned.
\<close>

definition map_condition :: "json \<Rightarrow> error + DiagnosisRecord" where
  "map_condition c =
     (if c = JNull then Inl TypeError
      else bind (ToNumber (or_else (read_member c ''confidence'') (JNumber (1 / 2)))) (\<lambda>x.
             Inr \<lparr> condition = read_member c ''condition'',
                   confidence = Math_min (Math_max x (Num 0)) (Num 1),
                   urgency = or_else (read_member c ''urgency'') (JString ''low''),
                   steps = or_else (read_member c ''steps'') (JArray []),
                   description = or_else (read_member c ''description'') (JString []) \<rparr>))"

fun map_err :: "('a \<Rightarrow> error + 'b) \<Rightarrow> 'a list \<Rightarrow> error + 'b list" where
  "map_err f [] = Inr []"
| "map_err f (x # xs) =
     (case f x of
        Inl e \<Rightarrow> Inl e
      | Inr y \<Rightarrow> (case map_err f xs of Inl e \<Rightarrow> Inl e | Inr ys \<Rightarrow> Inr (y # ys)))"

text \<open>The body of the \<^verbatim>\<open>try\<close> block of \<^verbatim>\<open>parseAIResponse\<close>.\<close>

definition parse_body :: "jsval \<Rightarrow> error + DiagnosisRecord list" where
  "parse_body responseText =
     bind (extract_conditions responseText) (map_err map_condition)"

text \<open>The \<^verbatim>\<open>catch\<close> wraps whatever was thrown.\<close>

definition parseAIResponse :: "jsval \<Rightarrow> error + DiagnosisRecord list" where
  "parseAIResponse responseText =
     (case parse_body responseText of
        Inl e \<Rightarrow> Inl (FailedToParse e)
      | Inr records \<Rightarrow> Inr records)"

definition getMockFallback :: "DiagnosisRecord list" where
  "getMockFallback =
     [\<lparr> condition = Some (JString ''General Health Assessment''),
        confidence = Num (7 / 10),
        urgency = JString ''low'',
        steps = JArray
          [JString ''Monitor your symptoms closely'',
           JString ''Get adequate rest and stay hydrated'',
           JString ''Consider over-the-counter pain relief if appropriate'',
           JString ''Consult a healthcare professional if symptoms worsen or persist''],
        description = JString
          ''Based on your symptoms, it's important to monitor your condition and seek professional medical advice.'' \<rparr>]"

section \<open>Configuration\<close>

text \<open>
  \<^verbatim>\<open>import.meta.env\<close>: the variables that decide the control flow. A variable is a
  string or undefined. (The model names and URLs only shape the request.)
\<close>

record env =
  VITE_AI_SERVICE :: "string option"
  VITE_GEMINI_API_KEY :: "string option"
  VITE_OPENAI_API_KEY :: "string option"
  VITE_AZURE_OPENAI_ENDPOINT :: "string option"
  VITE_AZURE_OPENAI_API_KEY :: "string option"
  VITE_AZURE_OPENAI_DEPLOYMENT_NAME :: "string option"
  VITE_ANTHROPIC_API_KEY :: "string option"

definition present :: "string option \<Rightarrow> bool" where
  "present v = (case v of None \<Rightarrow> False | Some s \<Rightarrow> s \<noteq> [])"

definition AI_SERVICE :: "env \<Rightarrow> string" where
  "AI_SERVICE e = (case VITE_AI_SERVICE e of None \<Rightarrow> ''gemini''
                   | Some s \<Rightarrow> if s \<noteq> [] then s else ''gemini'')"

text \<open>
  An entry of \<^verbatim>\<open>AI_CONFIG\<close>. The table is an object literal, so a name it does not
  define itself may still find a property of \<^verbatim>\<open>Object.prototype\<close>; such a value is
  truthy and has none of the three fields.
\<close>

datatype config =
    Config (apiKey: "string option") (endpoint: "string option") (deploymentName: "string option")
  | Inherited

definition Object_prototype :: "string list" where
  "Object_prototype =
     [''constructor'', ''hasOwnProperty'', ''isPrototypeOf'', ''propertyIsEnumerable'',
      ''toLocaleString'', ''toString'', ''valueOf'', ''__proto__'',
      ''__defineGetter__'', ''__defineSetter__'', ''__lookupGetter__'', ''__lookupSetter__'']"

definition AI_CONFIG :: "env \<Rightarrow> string \<Rightarrow> config option" where
  "AI_CONFIG e name =
     (if name = ''gemini'' then Some (Config (VITE_GEMINI_API_KEY e) None None)
      else if name = ''openai'' then Some (Config (VITE_OPENAI_API_KEY e) None None)
      else if name = ''azure'' then
        Some (Config (VITE_AZURE_OPENAI_API_KEY e) (VITE_AZURE_OPENAI_ENDPOINT e)
                (VITE_AZURE_OPENAI_DEPLOYMENT_NAME e))
      else if name = ''anthropic'' then Some (Config (VITE_ANTHROPIC_API_KEY e) None None)
      else if name \<in> set Object_prototype then Some Inherited
      else None)"

definition field_present :: "(config \<Rightarrow> string option) \<Rightarrow> config \<Rightarrow> bool" where
  "field_present f c = (case c of Inherited \<Rightarrow> False | Config a b d \<Rightarrow> present (f c))"

definition validateConfig :: "string \<Rightarrow> config option \<Rightarrow> error + config" where
  "validateConfig service cfg =
     (case cfg of
        None \<Rightarrow> Inl (InvalidService service)
      | Some c \<Rightarrow>
          if service = ''gemini'' \<and> \<not> field_present apiKey c then Inl (ApiKeyNotFound ''gemini'')
          else if service = ''openai'' \<and> \<not> field_present apiKey c then Inl (ApiKeyNotFound ''openai'')
          else if service = ''azure'' \<and>
                  (\<not> field_present apiKey c \<or> \<not> field_present endpoint c
                   \<or> \<not> field_present deploymentName c)
            then Inl AzureIncomplete
          else if service = ''anthropic'' \<and> \<not> field_present apiKey c
            then Inl (ApiKeyNotFound ''anthropic'')
          else Inr c)"

text \<open>
  \<^verbatim>\<open>new AIService()\<close>: the constructor reads the table and validates; an instance
  holds its configuration.
\<close>

definition new_AIService :: "env \<Rightarrow> error + config" where
  "new_AIService e = validateConfig (AI_SERVICE e) (AI_CONFIG e (AI_SERVICE e))"

section \<open>Provider calls\<close>

datatype template = MEDICAL_PROMPT | MEDICAL_PROMPT_WITH_IMAGES

text \<open>\<open>Replace t s\<close> stands for the text \<^verbatim>\<open>t.replace('{symptoms}', s)\<close>.\<close>

datatype prompt = Replace template string

fun join :: "string list \<Rightarrow> string" where
  "join [] = []"
| "join [x] = x"
| "join (x # y # zs) = x @ '', '' @ join (y # zs)"

text \<open>
  An uploaded image: its MIME type and what \<^verbatim>\<open>fileToBase64\<close> makes of the file
  (\<open>None\<close> when the reader fails).
\<close>

record image =
  mime_type :: string
  base64 :: "string option"

text \<open>
  What is handed to \<^verbatim>\<open>fetch\<close>: the provider, the prompt and, for Gemini, the
  inline image parts. The network answers each request by rejecting or by a response
  with a status and a body; the body is given as \<^verbatim>\<open>response.json()\<close> reads it,
  \<open>None\<close> when that rejects.
\<close>

datatype request =
    GeminiRequest prompt "(string \<times> string) list"
  | OpenAIRequest prompt
  | AzureRequest prompt
  | AnthropicRequest prompt

datatype response = Rejected | Response nat "json option"

type_synonym network = "request \<Rightarrow> response"

record outcome =
  sent :: "request list"
  result :: "error + DiagnosisRecord list"

definition ok :: "nat \<Rightarrow> bool" where
  "ok status \<longleftrightarrow> 200 \<le> status \<and> status \<le> 299"

definition inline_parts :: "image list \<Rightarrow> (string \<times> string) list" where
  "inline_parts images =
     concat (map (\<lambda>i. case base64 i of None \<Rightarrow> [] | Some d \<Rightarrow> [(mime_type i, d)]) images)"

text \<open>
  The branch for a response that is not ok: the body, or an empty object when it
  is no JSON, is read for \<^verbatim>\<open>error?.message\<close>, the message (when truthy) is put
  into the text of the API error, which throws for a message without a primitive, and
  the API error is thrown.
\<close>

definition api_error :: "string \<Rightarrow> nat \<Rightarrow> json option \<Rightarrow> error + 'a" where
  "api_error provider status body =
     bind (read_prop (Some (case body of None \<Rightarrow> JObject [] | Some d \<Rightarrow> d)) ''error'')
       (\<lambda>err. let message = (case err of None \<Rightarrow> None | Some JNull \<Rightarrow> None
                                | Some e \<Rightarrow> read_member e ''message'')
              in case message of
                   None \<Rightarrow> Inl (ApiError provider status)
                 | Some m \<Rightarrow> if truthy message \<and> no_primitive m then Inl TypeError
                             else Inl (ApiError provider status))"

definition gemini_text :: "json \<Rightarrow> error + jsval" where
  "gemini_text data =
     bind (read_prop (Some data) ''candidates'') (\<lambda>candidates.
       if \<not> truthy candidates then Inl InvalidResponseFormat
       else bind (index0 candidates) (\<lambda>c0.
         if \<not> truthy c0 then Inl InvalidResponseFormat
         else bind (read_prop c0 ''content'') (\<lambda>content.
           if \<not> truthy content then Inl InvalidResponseFormat
           else bind (read_prop content ''parts'') (\<lambda>parts.
             bind (index0 parts) (\<lambda>p0. read_prop p0 ''text'')))))"

definition chat_text :: "json \<Rightarrow> error + jsval" where
  "chat_text data =
     bind (read_prop (Some data) ''choices'') (\<lambda>choices.
       bind (index0 choices) (\<lambda>c0.
         bind (read_prop c0 ''message'') (\<lambda>message. read_prop message ''content'')))"

definition anthropic_text :: "json \<Rightarrow> error + jsval" where
  "anthropic_text data =
     bind (read_prop (Some data) ''content'') (\<lambda>content.
       bind (index0 content) (\<lambda>c0. read_prop c0 ''text''))"

text \<open>
  The part the four calls share after \<^verbatim>\<open>fetch\<close>: the status check, the body and
  the unwrapping of the provider's envelope, then the normalizer.
\<close>

definition handle_response ::
  "string \<Rightarrow> (json \<Rightarrow> error + jsval) \<Rightarrow> response \<Rightarrow> error + DiagnosisRecord list" where
  "handle_response provider unwrap r =
     (case r of
        Rejected \<Rightarrow> Inl NetworkFailure
      | Response status body \<Rightarrow>
          if \<not> ok status then api_error provider status body
          else (case body of
                  None \<Rightarrow> Inl SyntaxError
                | Some data \<Rightarrow> bind (unwrap data) parseAIResponse))"

definition callGemini :: "network \<Rightarrow> prompt \<Rightarrow> image list \<Rightarrow> outcome" where
  "callGemini net p images =
     (let req = GeminiRequest p (inline_parts images)
      in \<lparr> sent = [req], result = handle_response ''Google Gemini'' gemini_text (net req) \<rparr>)"

definition callOpenAI :: "network \<Rightarrow> prompt \<Rightarrow> image list \<Rightarrow> outcome" where
  "callOpenAI net p images =
     (let req = OpenAIRequest p
      in \<lparr> sent = [req], result = handle_response ''OpenAI'' chat_text (net req) \<rparr>)"

definition callAzureOpenAI :: "network \<Rightarrow> prompt \<Rightarrow> image list \<Rightarrow> outcome" where
  "callAzureOpenAI net p images =
     (let req = AzureRequest p
      in \<lparr> sent = [req], result = handle_response ''Azure OpenAI'' chat_text (net req) \<rparr>)"

definition callAnthropic :: "network \<Rightarrow> prompt \<Rightarrow> image list \<Rightarrow> outcome" where
  "callAnthropic net p images =
     (let req = AnthropicRequest p
      in \<lparr> sent = [req], result = handle_response ''Anthropic'' anthropic_text (net req) \<rparr>)"

text \<open>\<^verbatim>\<open>AIService.diagnose(symptoms, images = [])\<close>.\<close>

definition AIService_diagnose :: "env \<Rightarrow> network \<Rightarrow> string list \<Rightarrow> image list \<Rightarrow> outcome" where
  "AIService_diagnose e net symptoms images =
     (let hasImages = (length images > 0);
          p = (if hasImages then Replace MEDICAL_PROMPT_WITH_IMAGES (join symptoms)
               else Replace MEDICAL_PROMPT (join symptoms));
          out =
            (if AI_SERVICE e = ''gemini'' then callGemini net p (if hasImages then images else [])
             else if AI_SERVICE e = ''openai'' then callOpenAI net p (if hasImages then images else [])
             else if AI_SERVICE e = ''azure'' then
               callAzureOpenAI net p (if hasImages then images else [])
             else if AI_SERVICE e = ''anthropic'' then
               callAnthropic net p (if hasImages then images else [])
             else \<lparr> sent = [], result = Inl (UnsupportedService (AI_SERVICE e)) \<rparr>)
      in case result out of
           Inl err \<Rightarrow> out \<lparr> result := Inl (DiagnosisFailed err) \<rparr>
         | Inr records \<Rightarrow> out)"

section \<open>The entry point\<close>

text \<open>
  \<^verbatim>\<open>getAIService\<close> keeps one instance in the module variable
  \<^verbatim>\<open>aiServiceInstance\<close>, passed here as an argument and returned with the result.
\<close>

definition getAIService :: "env \<Rightarrow> config option \<Rightarrow> config option \<times> config option" where
  "getAIService e aiServiceInstance =
     (case aiServiceInstance of
        Some inst \<Rightarrow> (Some inst, aiServiceInstance)
      | None \<Rightarrow>
          (case new_AIService e of
             Inl err \<Rightarrow> (None, None)
           | Inr inst \<Rightarrow> (Some inst, Some inst)))"

text \<open>
  \<^verbatim>\<open>diagnose(symptoms)\<close>. Both fallback paths build a service with
  \<^verbatim>\<open>new AIService()\<close> before they ask it for the mock data, so the constructor's
  error leaves \<open>diagnose\<close> when it throws. The method is called with the symptoms alone.
\<close>

definition mock_fallback :: "env \<Rightarrow> error + DiagnosisRecord list" where
  "mock_fallback e = bind (new_AIService e) (\<lambda>mockService. Inr getMockFallback)"

definition diagnose ::
  "env \<Rightarrow> network \<Rightarrow> config option \<Rightarrow> string list \<Rightarrow> outcome \<times> config option" where
  "diagnose e net aiServiceInstance symptoms =
     (let (aiService, inst') = getAIService e aiServiceInstance
      in case aiService of
           None \<Rightarrow> (\<lparr> sent = [], result = mock_fallback e \<rparr>, inst')
         | Some svc \<Rightarrow>
             (let out = AIService_diagnose e net symptoms []
              in case result out of
                   Inr records \<Rightarrow> (out, inst')
                 | Inl err \<Rightarrow> (out \<lparr> result := mock_fallback e \<rparr>, inst')))"

text \<open>
  \<^verbatim>\<open>handleSubmitSymptoms\<close> of the App component calls
  \<^verbatim>\<open>diagnose(symptoms, images)\<close>; \<open>diagnose\<close> declares one parameter, so the second
  argument is dropped.
\<close>

definition handleSubmitSymptoms ::
  "env \<Rightarrow> network \<Rightarrow> config option \<Rightarrow> string list \<Rightarrow> image list \<Rightarrow> outcome \<times> config option" where
  "handleSubmitSymptoms e net aiServiceInstance symptoms images =
     diagnose e net aiServiceInstance symptoms"

section \<open>The symptom form\<close>

text \<open>\<^verbatim>\<open>s.split(',')\<close>: the pieces between the separators; the empty text gives one empty piece.\<close>

fun split :: "char \<Rightarrow> string \<Rightarrow> string list" where
  "split sep [] = [[]]"
| "split sep (c # cs) =
     (if c = sep then [] # split sep cs
      else (case split sep cs of
              [] \<Rightarrow> [[c]]
            | t # ts \<Rightarrow> (c # t) # ts))"

text \<open>
  \<^verbatim>\<open>handleSubmit\<close> either alerts and returns, or calls \<^verbatim>\<open>onSubmit\<close> with the
  symptoms and the images.
\<close>

datatype submission = Alert | OnSubmit "string list" "image list"

definition handleSubmit :: "string list \<Rightarrow> string \<Rightarrow> image list \<Rightarrow> submission" where
  "handleSubmit selectedSymptoms freeTextSymptoms images =
     (let allSymptoms =
            selectedSymptoms @
            (if freeTextSymptoms \<noteq> []
             then filter (\<lambda>s. s \<noteq> []) (map trim (split CHR '','' freeTextSymptoms))
             else [])
      in if length allSymptoms = 0 then Alert
         else OnSubmit allSymptoms (if length images > 0 then images else []))"

section \<open>The properties as the specification words them\<close>

text \<open>
  The specification's rule for the confidence, \<^verbatim>\<open>clamp(value ?? 0.5, 0, 1)\<close>: the
  default stands in for a missing (undefined or null) value only. (The rule names no
  number for a value that does not convert; NaN stands for it.)
\<close>

definition spec_confidence :: "jsval \<Rightarrow> number" where
  "spec_confidence v =
     (case v of
        None \<Rightarrow> Num (1 / 2)
      | Some JNull \<Rightarrow> Num (1 / 2)
      | Some w \<Rightarrow>
          (case ToNumber w of
             Inl e \<Rightarrow> NaN
           | Inr x \<Rightarrow> Math_min (Math_max x (Num 0)) (Num 1)))"

text \<open>The specification's invariant of a diagnosis record.\<close>

definition in_unit :: "number \<Rightarrow> bool" where
  "in_unit n = (case n of Num x \<Rightarrow> 0 \<le> x \<and> x \<le> 1 | _ \<Rightarrow> False)"

definition urgency_enum :: "json list" where
  "urgency_enum = [JString ''low'', JString ''medium'', JString ''high'']"

definition spec_invariant :: "DiagnosisRecord \<Rightarrow> bool" where
  "spec_invariant r \<longleftrightarrow> in_unit (confidence r) \<and> urgency r \<in> set urgency_enum"

text \<open>A confidence that is absent, null, a boolean or a number.\<close>

fun plain_confidence :: "jsval \<Rightarrow> bool" where
  "plain_confidence None = True"
| "plain_confidence (Some JNull) = True"
| "plain_confidence (Some (JBool b)) = True"
| "plain_confidence (Some (JNumber x)) = True"
| "plain_confidence (Some v) = False"

text \<open>
  The symptom list of a submission in the specification's words: the free text split on
  commas, each token trimmed, the empty tokens removed. The three notions are stated by
  what they mean, not by how they are computed. The pieces of a text at a separator are
  the texts without the separator that give the text back when they are put together
  with one separator between neighbours.
\<close>

fun unsplit :: "char \<Rightarrow> string list \<Rightarrow> string" where
  "unsplit sep [] = []"
| "unsplit sep [p] = p"
| "unsplit sep (p # q # ps) = p @ sep # unsplit sep (q # ps)"

definition pieces_of :: "char \<Rightarrow> string \<Rightarrow> string list \<Rightarrow> bool" where
  "pieces_of sep s ps \<longleftrightarrow> ps \<noteq> [] \<and> (\<forall>p \<in> set ps. sep \<notin> set p) \<and> unsplit sep ps = s"

text \<open>
  A text trimmed: what is left of it between white space at its start and white space at
  its end, itself neither starting nor ending with white space.
\<close>

definition trimmed_of :: "string \<Rightarrow> string \<Rightarrow> bool" where
  "trimmed_of s t \<longleftrightarrow>
     (\<exists>a b. s = a @ t @ b \<and> (\<forall>c \<in> set a. js_space c) \<and> (\<forall>c \<in> set b. js_space c))
     \<and> (t \<noteq> [] \<longrightarrow> \<not> js_space (hd t) \<and> \<not> js_space (last t))"

definition spec_symptoms :: "string list \<Rightarrow> string \<Rightarrow> string list \<Rightarrow> bool" where
  "spec_symptoms selected freeText symptoms \<longleftrightarrow>
     (\<exists>pieces tokens.
        pieces_of CHR '','' freeText pieces
        \<and> list_all2 trimmed_of pieces tokens
        \<and> symptoms = selected @ filter (\<lambda>t. t \<noteq> []) tokens)"

text \<open>
  An element of the conditions array on which the callback throws: null, or an element
  whose confidence has no primitive.
\<close>

definition throws_on :: "json \<Rightarrow> bool" where
  "throws_on c \<longleftrightarrow>
     c = JNull \<or> (case read_member c ''confidence'' of None \<Rightarrow> False | Some v \<Rightarrow> no_primitive v)"

text \<open>The prompt of a request.\<close>

fun request_prompt :: "request \<Rightarrow> prompt" where
  "request_prompt (GeminiRequest p imgs) = p"
| "request_prompt (OpenAIRequest p) = p"
| "request_prompt (AzureRequest p) = p"
| "request_prompt (AnthropicRequest p) = p"

text \<open>
  Two environments: one with no variable set, and one with the default service and its
  key. And an uploaded image.
\<close>

definition empty_env :: env where
  "empty_env =
     \<lparr> VITE_AI_SERVICE = None, VITE_GEMINI_API_KEY = None, VITE_OPENAI_API_KEY = None,
       VITE_AZURE_OPENAI_ENDPOINT = None, VITE_AZURE_OPENAI_API_KEY = None,
       VITE_AZURE_OPENAI_DEPLOYMENT_NAME = None, VITE_ANTHROPIC_API_KEY = None \<rparr>"

definition gemini_env :: env where
  "gemini_env = empty_env \<lparr> VITE_GEMINI_API_KEY := Some ''key'' \<rparr>"

definition photo :: image where
  "photo = \<lparr> mime_type = ''image/png'', base64 = Some ''iVBORw0KGgo='' \<rparr>"

section \<open>Sample inputs\<close>

text \<open>
  Response texts, the conditions they hold and the records they give, and a free text of
  the form, for the instances below.
\<close>

definition c2_text :: string where
  \<open>c2_text = ''{"conditions": [{"confidence": 1.4}, {"confidence": -2}, {"confidence": 0.25}, {}, {"confidence": 0}]}''\<close>

definition c2_conditions :: "json list" where
  "c2_conditions = [JObject [(''confidence'', JNumber (7 / 5))], JObject [(''confidence'', JNumber (- 2))],
     JObject [(''confidence'', JNumber (1 / 4))], JObject [], JObject [(''confidence'', JNumber 0)]]"

definition blank_record :: "number \<Rightarrow> DiagnosisRecord" where
  "blank_record x = \<lparr> condition = None, confidence = x, urgency = JString ''low'',
                      steps = JArray [], description = JString [] \<rparr>"

definition c2_records :: "DiagnosisRecord list" where
  "c2_records = [blank_record (Num 1), blank_record (Num 0), blank_record (Num (1 / 4)),
                 blank_record (Num (1 / 2)), blank_record (Num (1 / 2))]"

definition c4_text :: string where
  \<open>c4_text = ''{"conditions": [{"confidence": 3, "urgency": "medium"}, {"urgency": null}]}''\<close>

definition c4_conditions :: "json list" where
  "c4_conditions =
     [JObject [(''confidence'', JNumber 3), (''urgency'', JString ''medium'')],
      JObject [(''urgency'', JNull)]]"

definition c4_records :: "DiagnosisRecord list" where
  "c4_records = [(blank_record (Num 1)) \<lparr> urgency := JString ''medium'' \<rparr>,
                 blank_record (Num (1 / 2))]"

definition c4_bad_record :: DiagnosisRecord where
  "c4_bad_record = \<lparr> condition = None, confidence = NaN, urgency = JString ''banana'',
                     steps = JArray [], description = JString [] \<rparr>"

definition c5_text :: string where
  \<open>c5_text = ''{"conditions": [{"condition": "Cold"}, {"urgency": "critical"}, {"urgency": ""}]}''\<close>

definition c5_conditions :: "json list" where
  "c5_conditions =
     [JObject [(''condition'', JString ''Cold'')], JObject [(''urgency'', JString ''critical'')],
      JObject [(''urgency'', JString [])]]"

definition c5_records :: "DiagnosisRecord list" where
  "c5_records = [(blank_record (Num (1 / 2))) \<lparr> condition := Some (JString ''Cold'') \<rparr>,
                 (blank_record (Num (1 / 2))) \<lparr> urgency := JString ''critical'' \<rparr>,
                 blank_record (Num (1 / 2))]"

definition c7_text :: string where
  \<open>c7_text = ''Sure, here you go: {"conditions": [{"condition": "Cold"}, {"condition": "Flu", "urgency": "high"}]} Take care.''\<close>

definition c7_span :: string where
  \<open>c7_span = ''{"conditions": [{"condition": "Cold"}, {"condition": "Flu", "urgency": "high"}]}''\<close>

definition c7_conditions :: "json list" where
  "c7_conditions = [JObject [(''condition'', JString ''Cold'')],
                    JObject [(''condition'', JString ''Flu''), (''urgency'', JString ''high'')]]"

definition c7_records :: "DiagnosisRecord list" where
  "c7_records = [(blank_record (Num (1 / 2))) \<lparr> condition := Some (JString ''Cold'') \<rparr>,
                 (blank_record (Num (1 / 2))) \<lparr> condition := Some (JString ''Flu''),
                                                 urgency := JString ''high'' \<rparr>]"

definition c7_bad_text :: string where
  \<open>c7_bad_text = ''{"conditions": [{"condition": "Cold"}, {"confidence": {"toString": 1}}]}''\<close>

definition c7_bad_conditions :: "json list" where
  "c7_bad_conditions = [JObject [(''condition'', JString ''Cold'')],
                        JObject [(''confidence'', JObject [(''toString'', JNumber 1)])]]"

definition c10_text :: string where
  "c10_text = ''headache,  sore throat , ,dizzy,''"

section \<open>Lemmas\<close>

subsection \<open>The bound of the reader\<close>

text \<open>
  Every reader returns a rest that is shorter than its input, and a result found with
  some bound is found with every bound above the number of characters consumed.
\<close>

lemma skip_ws_length: "length (skip_ws s) \<le> length s"
  by (simp add: skip_ws_def length_dropWhile_le)

lemma cons_char_Some:
  "cons_char c x = Some (str, r) \<longleftrightarrow> (\<exists>t. x = Some (t, r) \<and> str = c # t)"
  by (auto simp: cons_char_def split: option.splits)

lemma lex_string_shorter: "lex_string cs = Some (str, r) \<Longrightarrow> length r < length cs"
proof (induction cs arbitrary: str r rule: length_induct)
  case (1 cs)
  from "1.prems" obtain c cs0 where cs: "cs = c # cs0" by (cases cs) auto
  from "1.prems" cs have
    "r = cs0 \<or> (\<exists>rest t. length rest \<le> length cs0 \<and> lex_string rest = Some (t, r))"
    by (auto simp: cons_char_Some split: if_splits list.splits option.splits)
  then show ?case
  proof
    assume "r = cs0"
    with cs show ?thesis by simp
  next
    assume "\<exists>rest t. length rest \<le> length cs0 \<and> lex_string rest = Some (t, r)"
    then obtain rest t where l: "length rest \<le> length cs0" and s: "lex_string rest = Some (t, r)"
      by blast
    from l cs have "length rest < length cs" by simp
    with "1.IH" s have "length r < length rest" by blast
    with l cs show ?thesis by simp
  qed
qed

lemma lex_int_shorter: "lex_int s = Some (ip, r) \<Longrightarrow> length r < length s"
  by (auto simp: lex_int_def split: list.splits if_splits
      intro: le_imp_less_Suc length_dropWhile_le)

lemma lex_frac_shorter: "lex_frac s = Some (fp, r) \<Longrightarrow> length r \<le> length s"
  by (auto simp: lex_frac_def split: list.splits if_splits
      intro: le_SucI length_dropWhile_le)

lemma lex_exp_shorter: "lex_exp s = Some (ex, r) \<Longrightarrow> length r \<le> length s"
  by (auto simp: lex_exp_def Let_def split: list.splits if_splits prod.splits
      intro: le_SucI length_dropWhile_le order_trans [OF length_dropWhile_le])

lemma lex_number_shorter: "lex_number s = Some (x, r) \<Longrightarrow> length r < length s"
  by (auto simp: lex_number_def Let_def
      split: list.splits if_splits option.splits prod.splits
      dest!: lex_int_shorter lex_frac_shorter lex_exp_shorter)

lemma lex_literal_shorter: "lex_literal s = Some (v, r) \<Longrightarrow> length r < length s"
  by (auto simp: lex_literal_def split: if_splits) (cases s; simp)+

lemma skip_ws_Cons_length: "skip_ws s = c # cs \<Longrightarrow> length cs < length s"
  using skip_ws_length [of s] by simp

lemma parse_value_cases:
  assumes "parse_value (Suc n) s = Some (v, r)"
  obtains
    (empty_object) cs r0 where "skip_ws s = CHR ''{'' # cs" "skip_ws cs = CHR ''}'' # r0"
      "v = JObject []" "r = r0"
  | (object) cs d r0 where "skip_ws s = CHR ''{'' # cs" "skip_ws cs = d # r0" "d \<noteq> CHR ''}''"
      "parse_members n [] cs = Some (v, r)"
  | (empty_array) cs r0 where "skip_ws s = CHR ''['' # cs" "skip_ws cs = CHR '']'' # r0"
      "v = JArray []" "r = r0"
  | (array) cs d r0 where "skip_ws s = CHR ''['' # cs" "skip_ws cs = d # r0" "d \<noteq> CHR '']''"
      "parse_elements n [] cs = Some (v, r)"
  | (atom) c cs where "skip_ws s = c # cs" "c \<noteq> CHR ''{''" "c \<noteq> CHR ''[''"
      "length r < length (c # cs)" "\<And>k. parse_value (Suc k) s = Some (v, r)"
proof (cases "skip_ws s")
  case Nil
  with assms show ?thesis by simp
next
  case (Cons c cs)
  show ?thesis
  proof (cases "c = CHR ''{''")
    case True
    with assms Cons show ?thesis
      by (cases "skip_ws cs") (auto split: if_splits intro: empty_object object)
  next
    case nb: False
    show ?thesis
    proof (cases "c = CHR ''[''")
      case True
      with assms Cons show ?thesis
        by (cases "skip_ws cs") (auto split: if_splits intro: empty_array array)
    next
      case False
      have l: "length r < length (c # cs)"
        using assms Cons nb False
        by (auto split: if_splits option.splits
            dest: lex_string_shorter lex_number_shorter lex_literal_shorter)
      have f: "parse_value (Suc k) s = Some (v, r)" for k
        using assms Cons nb False by (simp split: if_splits)
      show ?thesis by (rule atom [OF Cons nb False l f])
    qed
  qed
qed

lemma parse_elements_cases:
  assumes "parse_elements (Suc n) acc s = Some (v, r)"
  obtains
    (more) v1 r1 r' where "parse_value n s = Some (v1, r1)" "skip_ws r1 = CHR '','' # r'"
      "parse_elements n (acc @ [v1]) r' = Some (v, r)"
  | (last) v1 r1 where "parse_value n s = Some (v1, r1)" "skip_ws r1 = CHR '']'' # r"
      "v = JArray (acc @ [v1])"
  using assms by (auto split: option.splits list.splits if_splits)

lemma parse_members_cases:
  assumes "parse_members (Suc n) acc s = Some (v, r)"
  obtains
    (more) q k r1 q2 v1 r3 r4 where "skip_ws s = CHR 0x22 # q" "lex_string q = Some (k, r1)"
      "skip_ws r1 = CHR '':'' # q2" "parse_value n q2 = Some (v1, r3)"
      "skip_ws r3 = CHR '','' # r4" "parse_members n (acc @ [(k, v1)]) r4 = Some (v, r)"
  | (last) q k r1 q2 v1 r3 where "skip_ws s = CHR 0x22 # q" "lex_string q = Some (k, r1)"
      "skip_ws r1 = CHR '':'' # q2" "parse_value n q2 = Some (v1, r3)"
      "skip_ws r3 = CHR ''}'' # r" "v = JObject (acc @ [(k, v1)])"
  using assms by (auto split: option.splits list.splits if_splits)

lemma parse_fuel:
  "(parse_value m s = Some (v, r) \<longrightarrow>
      length r < length s \<and> (\<forall>k. length s - length r < k \<longrightarrow> parse_value k s = Some (v, r)))
   \<and> (parse_elements m acc s = Some (v, r) \<longrightarrow>
      length r < length s \<and> (\<forall>k. length s - length r < k \<longrightarrow> parse_elements k acc s = Some (v, r)))
   \<and> (parse_members m kvs s = Some (v, r) \<longrightarrow>
      length r < length s \<and> (\<forall>k. length s - length r < k \<longrightarrow> parse_members k kvs s = Some (v, r)))"
proof (induction m arbitrary: s acc kvs v r)
  case 0
  show ?case by simp
next
  case (Suc m)
  have IHv: "length r < length s \<and> (\<forall>k. length s - length r < k \<longrightarrow> parse_value k s = Some (v, r))"
    if "parse_value m s = Some (v, r)" for s v r
    using Suc [of s v r] that by blast
  have IHe: "length r < length s \<and> (\<forall>k. length s - length r < k \<longrightarrow> parse_elements k acc s = Some (v, r))"
    if "parse_elements m acc s = Some (v, r)" for s acc v r
    using Suc [of s v r acc] that by blast
  have IHm: "length r < length s \<and> (\<forall>k. length s - length r < k \<longrightarrow> parse_members k kvs s = Some (v, r))"
    if "parse_members m kvs s = Some (v, r)" for s kvs v r
    using Suc [of s v r _ kvs] that by blast
  have V: "length r < length s \<and> (\<forall>k. length s - length r < k \<longrightarrow> parse_value k s = Some (v, r))"
    if pv: "parse_value (Suc m) s = Some (v, r)"
    using pv
  proof (cases rule: parse_value_cases)
    case (empty_object cs r0)
    have len: "length r < length s"
      using skip_ws_Cons_length [OF empty_object(1)] skip_ws_Cons_length [OF empty_object(2)]
        empty_object(4) by simp
    have "parse_value k s = Some (v, r)" if "length s - length r < k" for k
    proof -
      from that obtain k' where "k = Suc k'" by (cases k) auto
      then show ?thesis using empty_object by simp
    qed
    with len show ?thesis by blast
  next
    case (object cs d r0)
    from IHm [OF object(4)] have l: "length r < length cs"
      and f: "\<And>k. length cs - length r < k \<Longrightarrow> parse_members k [] cs = Some (v, r)" by blast+
    have c: "length cs < length s" by (rule skip_ws_Cons_length [OF object(1)])
    have "parse_value k s = Some (v, r)" if "length s - length r < k" for k
    proof -
      from that obtain k' where k: "k = Suc k'" by (cases k) auto
      with that l c have "length cs - length r < k'" by simp
      from f [OF this] show ?thesis using k object(1,2,3) by simp
    qed
    with l c show ?thesis by auto
  next
    case (empty_array cs r0)
    have len: "length r < length s"
      using skip_ws_Cons_length [OF empty_array(1)] skip_ws_Cons_length [OF empty_array(2)]
        empty_array(4) by simp
    have "parse_value k s = Some (v, r)" if "length s - length r < k" for k
    proof -
      from that obtain k' where "k = Suc k'" by (cases k) auto
      then show ?thesis using empty_array by simp
    qed
    with len show ?thesis by blast
  next
    case (array cs d r0)
    from IHe [OF array(4)] have l: "length r < length cs"
      and f: "\<And>k. length cs - length r < k \<Longrightarrow> parse_elements k [] cs = Some (v, r)" by blast+
    have c: "length cs < length s" by (rule skip_ws_Cons_length [OF array(1)])
    have "parse_value k s = Some (v, r)" if "length s - length r < k" for k
    proof -
      from that obtain k' where k: "k = Suc k'" by (cases k) auto
      with that l c have "length cs - length r < k'" by simp
      from f [OF this] show ?thesis using k array(1,2,3) by simp
    qed
    with l c show ?thesis by auto
  next
    case (atom c cs)
    have len: "length r < length s"
      using atom(4) skip_ws_length [of s] atom(1) by simp
    have "parse_value k s = Some (v, r)" if "length s - length r < k" for k
    proof -
      from that obtain k' where "k = Suc k'" by (cases k) auto
      then show ?thesis using atom(5) by simp
    qed
    with len show ?thesis by blast
  qed
  have E: "length r < length s \<and> (\<forall>k. length s - length r < k \<longrightarrow> parse_elements k acc s = Some (v, r))"
    if pe: "parse_elements (Suc m) acc s = Some (v, r)"
    using pe
  proof (cases rule: parse_elements_cases)
    case (more v1 r1 r')
    from IHv [OF more(1)] have l1: "length r1 < length s"
      and f1: "\<And>k. length s - length r1 < k \<Longrightarrow> parse_value k s = Some (v1, r1)" by blast+
    from IHe [OF more(3)] have l2: "length r < length r'"
      and f2: "\<And>k. length r' - length r < k \<Longrightarrow> parse_elements k (acc @ [v1]) r' = Some (v, r)"
      by blast+
    have l3: "length r' < length r1" by (rule skip_ws_Cons_length [OF more(2)])
    have "parse_elements k acc s = Some (v, r)" if "length s - length r < k" for k
    proof -
      from that obtain k' where k: "k = Suc k'" by (cases k) auto
      from that k l1 l2 l3 have a: "length s - length r1 < k'" and b: "length r' - length r < k'"
        by simp_all
      from f1 [OF a] f2 [OF b] show ?thesis using k more(2) by simp
    qed
    with l1 l2 l3 show ?thesis by auto
  next
    case (last v1 r1)
    from IHv [OF last(1)] have l1: "length r1 < length s"
      and f1: "\<And>k. length s - length r1 < k \<Longrightarrow> parse_value k s = Some (v1, r1)" by blast+
    have l3: "length r < length r1" by (rule skip_ws_Cons_length [OF last(2)])
    have "parse_elements k acc s = Some (v, r)" if "length s - length r < k" for k
    proof -
      from that obtain k' where k: "k = Suc k'" by (cases k) auto
      from that k l1 l3 have a: "length s - length r1 < k'" by simp
      from f1 [OF a] show ?thesis using k last(2,3) by simp
    qed
    with l1 l3 show ?thesis by auto
  qed
  have M: "length r < length s \<and> (\<forall>k. length s - length r < k \<longrightarrow> parse_members k kvs s = Some (v, r))"
    if pm: "parse_members (Suc m) kvs s = Some (v, r)"
    using pm
  proof (cases rule: parse_members_cases)
    case (more q key r1 q2 v1 r3 r4)
    have a1: "length q < length s" by (rule skip_ws_Cons_length [OF more(1)])
    have a2: "length r1 < length q" by (rule lex_string_shorter [OF more(2)])
    have a3: "length q2 < length r1" by (rule skip_ws_Cons_length [OF more(3)])
    from IHv [OF more(4)] have a4: "length r3 < length q2"
      and f1: "\<And>k. length q2 - length r3 < k \<Longrightarrow> parse_value k q2 = Some (v1, r3)" by blast+
    have a5: "length r4 < length r3" by (rule skip_ws_Cons_length [OF more(5)])
    from IHm [OF more(6)] have a6: "length r < length r4"
      and f2: "\<And>k. length r4 - length r < k \<Longrightarrow> parse_members k (kvs @ [(key, v1)]) r4 = Some (v, r)"
      by blast+
    have "parse_members k kvs s = Some (v, r)" if "length s - length r < k" for k
    proof -
      from that obtain k' where k: "k = Suc k'" by (cases k) auto
      from that k a1 a2 a3 a4 a5 a6 have a: "length q2 - length r3 < k'"
        and b: "length r4 - length r < k'" by simp_all
      from f1 [OF a] f2 [OF b] show ?thesis using k more(1,2,3,5) by simp
    qed
    with a1 a2 a3 a4 a5 a6 show ?thesis by auto
  next
    case (last q key r1 q2 v1 r3)
    have a1: "length q < length s" by (rule skip_ws_Cons_length [OF last(1)])
    have a2: "length r1 < length q" by (rule lex_string_shorter [OF last(2)])
    have a3: "length q2 < length r1" by (rule skip_ws_Cons_length [OF last(3)])
    from IHv [OF last(4)] have a4: "length r3 < length q2"
      and f1: "\<And>k. length q2 - length r3 < k \<Longrightarrow> parse_value k q2 = Some (v1, r3)" by blast+
    have a5: "length r < length r3" by (rule skip_ws_Cons_length [OF last(5)])
    have "parse_members k kvs s = Some (v, r)" if "length s - length r < k" for k
    proof -
      from that obtain k' where k: "k = Suc k'" by (cases k) auto
      from that k a1 a2 a3 a4 a5 have a: "length q2 - length r3 < k'" by simp
      from f1 [OF a] show ?thesis using k last(1,2,3,5,6) by simp
    qed
    with a1 a2 a3 a4 a5 show ?thesis by auto
  qed
  from V E M show ?case by blast
qed

text \<open>
  So the bound of \<open>JSON_parse\<close> is never the reason of a failure: a parse that some
  bound completes is the parse \<open>JSON_parse\<close> returns.
\<close>

lemma JSON_parse_fuel:
  assumes "parse_value m s = Some (v, r)" and "skip_ws r = []"
  shows "JSON_parse s = Some v"
proof -
  from parse_fuel [of m s v r] assms(1)
  have f: "\<forall>k. length s - length r < k \<longrightarrow> parse_value k s = Some (v, r)" by blast
  have "length s - length r < Suc (length s)" by simp
  with f have "parse_value (Suc (length s)) s = Some (v, r)" by blast
  with assms(2) show ?thesis unfolding JSON_parse_def by simp
qed

subsection \<open>The brace match and the reader\<close>

lemma match_braces_no_open: "CHR ''{'' \<notin> set s \<Longrightarrow> match_braces s = None"
proof -
  assume "CHR ''{'' \<notin> set s"
  then have d: "dropWhile (\<lambda>c. c \<noteq> CHR ''{'') s = []"
    by (auto simp: dropWhile_eq_Nil_conv)
  show ?thesis unfolding match_braces_def d by simp
qed

lemma match_braces_starts:
  assumes "match_braces s = Some j" shows "\<exists>r. j = CHR ''{'' # r"
proof (cases "dropWhile (\<lambda>c. c \<noteq> CHR ''{'') s")
  case Nil
  with assms show ?thesis by (simp add: match_braces_def)
next
  case (Cons b rest)
  then have "dropWhile (\<lambda>c. c \<noteq> CHR ''{'') s \<noteq> []" by simp
  from hd_dropWhile[OF this] Cons have "b = CHR ''{''" by simp
  with assms Cons show ?thesis by (auto simp: match_braces_def split: if_splits)
qed

lemma match_braces_single:
  assumes "CHR ''{'' \<notin> set pre" and "CHR ''}'' \<notin> set post"
  shows "match_braces (pre @ CHR ''{'' # mid @ CHR ''}'' # post) = Some (CHR ''{'' # mid @ [CHR ''}''])"
proof -
  have 1: "dropWhile (\<lambda>c. c \<noteq> CHR ''{'') (pre @ CHR ''{'' # mid @ CHR ''}'' # post)
           = CHR ''{'' # mid @ CHR ''}'' # post"
    using assms(1) by (subst dropWhile_append2) auto
  have 2: "dropWhile (\<lambda>c. c \<noteq> CHR ''}'') (rev (mid @ CHR ''}'' # post)) = CHR ''}'' # rev mid"
    using assms(2) by (simp, subst dropWhile_append2) auto
  show ?thesis unfolding match_braces_def 1 using 2 by simp
qed

lemma parse_members_object:
  "parse_members n acc s = Some (v, r) \<Longrightarrow> \<exists>kvs. v = JObject kvs"
proof (induction n arbitrary: acc s)
  case 0
  then show ?case by simp
next
  case (Suc n)
  then show ?case
    by (auto split: list.splits option.splits if_splits prod.splits)
qed

lemma skip_ws_brace: "skip_ws (CHR ''{'' # r) = CHR ''{'' # r"
  by (simp add: skip_ws_def json_ws_def)

lemma JSON_parse_brace:
  assumes "JSON_parse (CHR ''{'' # r) = Some v" shows "\<exists>kvs. v = JObject kvs"
proof -
  from assms obtain rest where "parse_value (Suc (Suc (length r))) (CHR ''{'' # r) = Some (v, rest)"
    by (auto simp: JSON_parse_def split: option.splits if_splits)
  then show ?thesis
    by (auto simp: skip_ws_brace simp del: parse_members.simps
          dest: parse_members_object split: list.splits if_splits)
qed

subsection \<open>The callback and its errors\<close>

lemma map_err_Inr:
  "map_err f xs = Inr ys \<longleftrightarrow> length ys = length xs \<and> (\<forall>i < length xs. f (xs ! i) = Inr (ys ! i))"
proof (induction xs arbitrary: ys)
  case Nil
  show ?case by auto
next
  case (Cons x xs)
  show ?case
  proof (cases "f x")
    case (Inl e)
    then show ?thesis by (auto intro: exI [of _ 0])
  next
    case fx: (Inr y)
    show ?thesis
    proof (cases "map_err f xs")
      case (Inl e)
      with Cons [of "tl ys"] fx show ?thesis
        by (cases ys) (auto simp: nth_Cons split: nat.splits)
    next
      case (Inr zs)
      with Cons [of "tl ys"] Cons [of zs] fx show ?thesis
        by (cases ys) (auto simp: nth_Cons nth_equalityI split: nat.splits)
    qed
  qed
qed

lemma map_condition_error: "map_condition c = Inl e \<Longrightarrow> e = TypeError"
proof -
  have t: "ToNumber v = Inl e \<Longrightarrow> e = TypeError" for v
    by (induction v rule: ToNumber.induct) (auto split: if_splits json.splits)
  assume "map_condition c = Inl e"
  then show ?thesis
    by (auto simp: map_condition_def bind_def split: if_splits sum.splits dest: t)
qed

lemma map_err_map_condition_error: "map_err map_condition cs = Inl e \<Longrightarrow> e = TypeError"
  by (induction cs) (auto split: sum.splits dest: map_condition_error)

lemma ToNumber_throws: "(\<exists>e. ToNumber v = Inl e) \<longleftrightarrow> no_primitive v"
  by (induction v rule: ToNumber.induct) (auto split: json.splits)

lemma or_else_falsy: "\<not> truthy v \<Longrightarrow> or_else v d = d"
  by (cases v) (simp_all add: or_else_def)

lemma or_else_truthy: "truthy (Some w) \<Longrightarrow> or_else (Some w) d = w"
  by (simp add: or_else_def)

lemma no_primitive_truthy: "no_primitive w \<Longrightarrow> truthy (Some w)"
  by (cases w) simp_all

lemma map_condition_throws: "(\<exists>e. map_condition c = Inl e) \<longleftrightarrow> throws_on c"
proof (cases "c = JNull")
  case True
  then show ?thesis by (simp add: map_condition_def throws_on_def)
next
  case False
  have "(\<exists>e. ToNumber (or_else (read_member c ''confidence'') (JNumber (1 / 2))) = Inl e)
        \<longleftrightarrow> (case read_member c ''confidence'' of None \<Rightarrow> False | Some v \<Rightarrow> no_primitive v)"
  proof (cases "read_member c ''confidence''")
    case None
    then show ?thesis by (simp add: or_else_def)
  next
    case (Some v)
    show ?thesis
    proof (cases "truthy (Some v)")
      case True
      with Some show ?thesis using ToNumber_throws [of v] by (simp add: or_else_truthy)
    next
      case f: False
      then have "\<not> no_primitive v" using no_primitive_truthy by blast
      with Some f show ?thesis by (simp add: or_else_falsy)
    qed
  qed
  with False show ?thesis
    by (auto simp: map_condition_def throws_on_def bind_def split: sum.splits)
qed

lemma map_err_map_condition_throws:
  "(\<exists>e. map_err map_condition cs = Inl e) \<longleftrightarrow> (\<exists>c \<in> set cs. throws_on c)"
proof (induction cs)
  case Nil
  show ?case by simp
next
  case (Cons c cs)
  show ?case
  proof (cases "map_condition c")
    case (Inl e)
    then have "throws_on c" using map_condition_throws [of c] by blast
    with Inl show ?thesis by simp
  next
    case (Inr r)
    then have "\<not> throws_on c" using map_condition_throws [of c] by auto
    with Inr Cons show ?thesis by (auto split: sum.splits)
  qed
qed

lemma parseAIResponse_conditions:
  assumes "extract_conditions rt = Inr cs"
  shows "parseAIResponse rt =
           (case map_err map_condition cs of
              Inl e \<Rightarrow> Inl (FailedToParse TypeError)
            | Inr records \<Rightarrow> Inr records)"
  using assms
  by (auto simp: parseAIResponse_def parse_body_def bind_def
      split: sum.splits dest: map_err_map_condition_error)

lemma extract_conditions_parsed:
  assumes "match_braces text = Some jsonMatch"
    and "JSON_parse jsonMatch = Some parsed"
    and "read_member parsed ''conditions'' = Some (JArray cs)"
  shows "extract_conditions (Some (JString text)) = Inr cs"
proof -
  from match_braces_starts [OF assms(1)] obtain r where "jsonMatch = CHR ''{'' # r" by blast
  with JSON_parse_brace assms(2) obtain kvs where "parsed = JObject kvs" by blast
  then show ?thesis using assms
    by (simp add: extract_conditions_def bind_def read_prop_def)
qed

lemma clamp_cases:
  "Math_min (Math_max n (Num 0)) (Num 1) =
     (case n of Num x \<Rightarrow> Num (min (max x 0) 1) | PosInf \<Rightarrow> Num 1 | NegInf \<Rightarrow> Num 0 | NaN \<Rightarrow> NaN)"
  by (cases n) (auto simp: Math_min_def Math_max_def)

subsection \<open>The records of the elements\<close>

text \<open>
  When the normalizer returns records for the conditions it extracted, each record is
  what the callback returns for the element at the same position.
\<close>

lemma record_of_element:
  assumes "extract_conditions rt = Inr cs" and "parseAIResponse rt = Inr recs"
    and "i < length cs"
  shows "map_condition (cs ! i) = Inr (recs ! i)"
proof -
  from parseAIResponse_conditions [OF assms(1)] assms(2)
  have "map_err map_condition cs = Inr recs" by (simp split: sum.splits)
  with assms(3) show ?thesis by (simp add: map_err_Inr)
qed

lemma clamp_in_unit:
  "Math_min (Math_max n (Num 0)) (Num 1) = NaN \<or> in_unit (Math_min (Math_max n (Num 0)) (Num 1))"
  by (cases n) (auto simp: clamp_cases in_unit_def)

lemma confidence_falsy:
  assumes "map_condition c = Inr r" and "\<not> truthy (read_member c ''confidence'')"
  shows "confidence r = Num (1 / 2)"
  using assms
  by (auto simp: map_condition_def bind_def or_else_falsy clamp_cases split: if_splits)

lemma confidence_number:
  assumes "map_condition c = Inr r" and "read_member c ''confidence'' = Some (JNumber x)"
    and "x \<noteq> 0"
  shows "confidence r = Num (min (max x 0) 1)"
  using assms
  by (auto simp: map_condition_def bind_def or_else_truthy clamp_cases split: if_splits)

lemma confidence_NaN_or_unit:
  assumes "map_condition c = Inr r"
  shows "confidence r = NaN \<or> in_unit (confidence r)"
proof -
  from assms obtain x where "confidence r = Math_min (Math_max x (Num 0)) (Num 1)"
    by (auto simp: map_condition_def bind_def split: if_splits sum.splits)
  with clamp_in_unit [of x] show ?thesis by simp
qed

lemma confidence_plain:
  assumes "map_condition c = Inr r" and "plain_confidence (read_member c ''confidence'')"
  shows "in_unit (confidence r)"
proof (cases "truthy (read_member c ''confidence'')")
  case False
  with assms(1) show ?thesis by (simp add: confidence_falsy in_unit_def)
next
  case True
  show ?thesis
  proof (cases "read_member c ''confidence''")
    case None
    with True show ?thesis by simp
  next
    case (Some w)
    with True assms show ?thesis
      by (cases w)
        (auto simp: map_condition_def bind_def or_else_truthy clamp_cases in_unit_def
          split: if_splits)
  qed
qed

lemma urgency_falsy:
  assumes "map_condition c = Inr r" and "\<not> truthy (read_member c ''urgency'')"
  shows "urgency r = JString ''low''"
  using assms
  by (auto simp: map_condition_def bind_def or_else_falsy split: if_splits sum.splits)

lemma urgency_truthy:
  assumes "map_condition c = Inr r" and "read_member c ''urgency'' = Some v"
    and "truthy (Some v)"
  shows "urgency r = v"
  using assms
  by (auto simp: map_condition_def bind_def or_else_truthy split: if_splits sum.splits)

lemma urgency_enum_truthy: "v \<in> set urgency_enum \<Longrightarrow> truthy (Some v)"
  by (auto simp: urgency_enum_def)

subsection \<open>The form\<close>

lemma split_not_Nil: "split sep s \<noteq> []"
  by (induction s) (auto split: list.splits)

lemma split_no_sep: "p \<in> set (split sep s) \<Longrightarrow> sep \<notin> set p"
proof (induction s arbitrary: p)
  case Nil
  then show ?case by simp
next
  case (Cons c s)
  show ?case
  proof (cases "c = sep")
    case True
    with Cons show ?thesis by auto
  next
    case False
    obtain t ts where t: "split sep s = t # ts"
      using split_not_Nil [of sep s] by (cases "split sep s") auto
    with Cons.prems False have "p = c # t \<or> p \<in> set ts" by simp
    with Cons.IH [of t] Cons.IH [of p] t False show ?thesis by auto
  qed
qed

lemma unsplit_Cons: "ps \<noteq> [] \<Longrightarrow> unsplit sep (p # ps) = p @ sep # unsplit sep ps"
  by (cases ps) simp_all

lemma unsplit_split: "unsplit sep (split sep s) = s"
proof (induction s)
  case Nil
  show ?case by simp
next
  case (Cons c s)
  obtain t ts where t: "split sep s = t # ts"
    using split_not_Nil [of sep s] by (cases "split sep s") auto
  show ?case
  proof (cases "c = sep")
    case True
    with Cons show ?thesis by (simp add: unsplit_Cons split_not_Nil)
  next
    case False
    with Cons t show ?thesis by (cases ts) simp_all
  qed
qed

lemma pieces_of_split: "pieces_of sep s (split sep s)"
  by (simp add: pieces_of_def split_not_Nil split_no_sep unsplit_split)

lemma split_piece: "sep \<notin> set p \<Longrightarrow> split sep p = [p]"
  by (induction p) auto

lemma split_append: "sep \<notin> set p \<Longrightarrow> split sep (p @ sep # s) = p # split sep s"
  by (induction p) auto

lemma split_unsplit:
  "ps \<noteq> [] \<Longrightarrow> (\<forall>p \<in> set ps. sep \<notin> set p) \<Longrightarrow> split sep (unsplit sep ps) = ps"
proof (induction ps rule: unsplit.induct)
  case (1 sep)
  then show ?case by simp
next
  case (2 sep p)
  then show ?case by (simp add: split_piece)
next
  case (3 sep p q ps)
  then show ?case by (simp add: split_append)
qed

text \<open>The pieces of a text are those that \<open>split\<close> computes, and no others.\<close>

lemma pieces_of_iff: "pieces_of sep s ps \<longleftrightarrow> ps = split sep s"
  using pieces_of_split [of sep s] split_unsplit [of ps sep]
  by (auto simp: pieces_of_def)

lemma trimmed_of_trim: "trimmed_of s (trim s)"
proof -
  define a where "a = takeWhile js_space s"
  define d where "d = dropWhile js_space s"
  define b where "b = rev (takeWhile js_space (rev d))"
  have t: "trim s = rev (dropWhile js_space (rev d))"
    by (simp add: trim_def d_def)
  have "d = rev (rev d)" by simp
  also have "\<dots> = rev (takeWhile js_space (rev d) @ dropWhile js_space (rev d))"
    by (simp only: takeWhile_dropWhile_id)
  also have "\<dots> = rev (dropWhile js_space (rev d)) @ rev (takeWhile js_space (rev d))"
    by (rule rev_append)
  finally have d: "d = trim s @ b" by (simp only: t b_def)
  have sd: "s = a @ d" unfolding a_def d_def by simp
  have "a @ d = a @ trim s @ b" using d by simp
  with sd have s: "s = a @ trim s @ b" by (rule trans)
  have sa: "\<forall>c \<in> set a. js_space c"
    using set_takeWhileD [of _ js_space s] by (auto simp: a_def)
  have sb: "\<forall>c \<in> set b. js_space c"
    using set_takeWhileD [of _ js_space "rev d"] by (auto simp: b_def)
  have e: "\<not> js_space (hd (trim s)) \<and> \<not> js_space (last (trim s))" if n: "trim s \<noteq> []"
  proof -
    from n d have dn: "d \<noteq> []" by auto
    then have "\<not> js_space (hd d)" unfolding d_def by (rule hd_dropWhile)
    moreover from d n have "hd d = hd (trim s)" by (metis hd_append2)
    moreover from n t have rn: "dropWhile js_space (rev d) \<noteq> []" by simp
    then have "\<not> js_space (hd (dropWhile js_space (rev d)))" by (rule hd_dropWhile)
    moreover from rn t have "last (trim s) = hd (dropWhile js_space (rev d))"
      by (simp add: last_rev)
    ultimately show ?thesis by simp
  qed
  from s sa sb e show ?thesis unfolding trimmed_of_def by blast
qed

lemma trim_spaces:
  assumes "\<forall>c \<in> set s. js_space c" shows "trim s = []"
proof -
  from assms show ?thesis by (auto simp: trim_def dest: set_dropWhileD)
qed

lemma trim_core:
  assumes "\<forall>c \<in> set a. js_space c" and "\<forall>c \<in> set b. js_space c"
    and "t \<noteq> []" and "\<not> js_space (hd t)" and "\<not> js_space (last t)"
  shows "trim (a @ t @ b) = t"
proof -
  from assms(3) obtain h t' where h: "t = h # t'" by (cases t) auto
  with assms(4) have 1: "dropWhile js_space (t @ b) = t @ b" by simp
  have "dropWhile js_space (a @ t @ b) = dropWhile js_space (t @ b)"
    using assms(1) by (subst dropWhile_append2) auto
  with 1 have 2: "dropWhile js_space (a @ t @ b) = t @ b" by simp
  from assms(3) have "rev t \<noteq> []" by simp
  then obtain l r where l: "rev t = l # r" by (cases "rev t") auto
  with assms(3,5) have "\<not> js_space l" by (metis hd_rev list.sel(1))
  with l have 3: "dropWhile js_space (rev t) = rev t" by simp
  have "dropWhile js_space (rev b @ rev t) = dropWhile js_space (rev t)"
    using assms(2) by (subst dropWhile_append2) auto
  with 3 have "dropWhile js_space (rev (t @ b)) = rev t" by simp
  with 2 show ?thesis by (simp add: trim_def)
qed

text \<open>A text trimmed is what \<open>trim\<close> computes, and nothing else.\<close>

lemma trimmed_of_iff: "trimmed_of s t \<longleftrightarrow> t = trim s"
proof
  assume "t = trim s"
  then show "trimmed_of s t" by (simp add: trimmed_of_trim)
next
  assume tr: "trimmed_of s t"
  then obtain a b where s: "s = a @ t @ b" and a: "\<forall>c \<in> set a. js_space c"
    and b: "\<forall>c \<in> set b. js_space c" unfolding trimmed_of_def by blast
  show "t = trim s"
  proof (cases "t = []")
    case True
    with s a b have "\<forall>c \<in> set s. js_space c" by auto
    with True show ?thesis by (simp add: trim_spaces)
  next
    case False
    with tr have "\<not> js_space (hd t)" "\<not> js_space (last t)" unfolding trimmed_of_def by blast+
    from trim_core [OF a b False this] s show ?thesis by simp
  qed
qed

lemma list_all2_trimmed_of: "list_all2 trimmed_of ps ts \<longleftrightarrow> ts = map trim ps"
  by (induction ps arbitrary: ts) (auto simp: list_all2_Cons1 trimmed_of_iff)

text \<open>So the specification's words determine the symptom list.\<close>

lemma spec_symptoms_iff:
  "spec_symptoms selected freeText symptoms \<longleftrightarrow>
     symptoms = selected @ filter (\<lambda>t. t \<noteq> []) (map trim (split CHR '','' freeText))"
  by (auto simp: spec_symptoms_def pieces_of_iff list_all2_trimmed_of)

lemma spec_symptoms_unique:
  "spec_symptoms selected freeText a \<Longrightarrow> spec_symptoms selected freeText b \<Longrightarrow> a = b"
  by (simp add: spec_symptoms_iff)

lemma handleSubmit_eq:
  "handleSubmit selected freeText images =
     (let symptoms = selected @ filter (\<lambda>t. t \<noteq> []) (map trim (split CHR '','' freeText))
      in if symptoms = [] then Alert else OnSubmit symptoms images)"
proof (cases "freeText = []")
  case True
  then show ?thesis by (simp add: handleSubmit_def trim_def)
next
  case False
  then show ?thesis by (simp add: handleSubmit_def)
qed

subsection \<open>The entry point\<close>

lemma new_AIService_empty_env: "new_AIService empty_env = Inl (ApiKeyNotFound ''gemini'')"
  by (simp add: new_AIService_def validateConfig_def AI_SERVICE_def AI_CONFIG_def empty_env_def
      field_present_def present_def)

lemma diagnose_unconfigured:
  assumes "new_AIService e = Inl err"
  shows "diagnose e net None symptoms = (\<lparr> sent = [], result = Inl err \<rparr>, None)"
  using assms by (simp add: diagnose_def getAIService_def mock_fallback_def bind_def)

lemma diagnose_configured:
  assumes "new_AIService e = Inr cfg"
  shows "result (fst (diagnose e net None symptoms)) =
           (case result (AIService_diagnose e net symptoms []) of
              Inl err \<Rightarrow> Inr getMockFallback
            | Inr records \<Rightarrow> Inr records)"
  using assms
  by (simp add: diagnose_def getAIService_def mock_fallback_def bind_def Let_def split: sum.splits)

lemma diagnose_falls_back:
  assumes "new_AIService e = Inr cfg"
    and "result (AIService_diagnose e net symptoms []) = Inl err"
  shows "result (fst (diagnose e net None symptoms)) = Inr getMockFallback"
  using diagnose_configured [OF assms(1)] assms(2) by simp

lemma api_error_throws: "api_error provider status body \<noteq> Inr x"
  by (auto simp: api_error_def bind_def Let_def split: sum.splits option.splits json.splits)

lemma handle_response_failure:
  "handle_response provider unwrap Rejected = Inl NetworkFailure"
  "\<not> ok status \<Longrightarrow> handle_response provider unwrap (Response status body) \<noteq> Inr records"
  "handle_response provider unwrap (Response status None) \<noteq> Inr records"
  by (auto simp: handle_response_def api_error_throws)

lemma AIService_diagnose_wraps:
  "result (AIService_diagnose e net symptoms images) = Inr records \<Longrightarrow>
   \<exists>provider unwrap req. handle_response provider unwrap (net req) = Inr records"
  unfolding AIService_diagnose_def callGemini_def callOpenAI_def callAzureOpenAI_def
    callAnthropic_def Let_def
  by (simp split: if_splits sum.splits) blast+

lemma AIService_diagnose_fails:
  assumes "\<And>req. net req = Rejected \<or> (\<exists>status body. net req = Response status body
                    \<and> (\<not> ok status \<or> body = None))"
  shows "\<exists>err. result (AIService_diagnose e net symptoms images) = Inl err"
proof (cases "result (AIService_diagnose e net symptoms images)")
  case (Inl err)
  then show ?thesis by blast
next
  case (Inr records)
  from AIService_diagnose_wraps [OF this] obtain provider unwrap req
    where h: "handle_response provider unwrap (net req) = Inr records" by blast
  have "handle_response provider unwrap (net req) \<noteq> Inr records"
    using assms [of req] handle_response_failure by auto
  with h show ?thesis by simp
qed

lemma AIService_diagnose_sent:
  "sent (AIService_diagnose e net symptoms images) =
     (if AI_SERVICE e = ''gemini'' then
        [GeminiRequest (Replace (if images = [] then MEDICAL_PROMPT else MEDICAL_PROMPT_WITH_IMAGES)
                          (join symptoms)) (inline_parts images)]
      else if AI_SERVICE e = ''openai'' then
        [OpenAIRequest (Replace (if images = [] then MEDICAL_PROMPT else MEDICAL_PROMPT_WITH_IMAGES)
                          (join symptoms))]
      else if AI_SERVICE e = ''azure'' then
        [AzureRequest (Replace (if images = [] then MEDICAL_PROMPT else MEDICAL_PROMPT_WITH_IMAGES)
                         (join symptoms))]
      else if AI_SERVICE e = ''anthropic'' then
        [AnthropicRequest (Replace (if images = [] then MEDICAL_PROMPT else MEDICAL_PROMPT_WITH_IMAGES)
                             (join symptoms))]
      else [])"
  by (auto simp: AIService_diagnose_def callGemini_def callOpenAI_def callAzureOpenAI_def
      callAnthropic_def Let_def inline_parts_def split: sum.splits)

lemma AIService_diagnose_template:
  "map request_prompt (sent (AIService_diagnose e net symptoms images)) =
     (if AI_SERVICE e \<in> {''gemini'', ''openai'', ''azure'', ''anthropic''}
      then [Replace (if images = [] then MEDICAL_PROMPT else MEDICAL_PROMPT_WITH_IMAGES)
              (join symptoms)]
      else [])"
  by (simp add: AIService_diagnose_sent)

lemma diagnose_sent:
  "sent (fst (diagnose e net inst symptoms)) =
     (case fst (getAIService e inst) of None \<Rightarrow> []
      | Some svc \<Rightarrow> sent (AIService_diagnose e net symptoms []))"
  by (auto simp: diagnose_def Let_def split: prod.splits option.splits sum.splits)

lemma handleSubmitSymptoms_text_only:
  "req \<in> set (sent (fst (handleSubmitSymptoms e net inst symptoms images))) \<Longrightarrow>
   request_prompt req = Replace MEDICAL_PROMPT (join symptoms)"
  by (auto simp: handleSubmitSymptoms_def diagnose_sent AIService_diagnose_sent
      split: option.splits if_splits)

section \<open>The claims on the normalizer\<close>

subsection \<open>The example, and the failures\<close>

text \<open>
  Claim C6. Normalizing the example text of the specification, a JSON object between
  the words of a sentence, yields exactly one record: condition Flu, the confidence 1.4
  clamped to 1, urgency high, the one step, and the empty description.
\<close>

theorem C6_flu_example:
  \<open>parseAIResponse
     (Some (JString ''Here is the result: {"conditions": [{"condition":"Flu","confidence":1.4,"urgency":"high","steps":["rest"]}]} Thanks!''))
   = Inr [\<lparr> condition = Some (JString ''Flu''), confidence = Num 1, urgency = JString ''high'',
             steps = JArray [JString ''rest''], description = JString '''' \<rparr>]\<close>
  by code_simp

text \<open>
  Claim C8. A response text with no opening and no closing brace fails with the
  no-JSON-found error (wrapped by the catch of the normalizer); no records are returned.
\<close>

theorem C8_no_braces:
  assumes "CHR ''{'' \<notin> set text" and "CHR ''}'' \<notin> set text"
  shows "parseAIResponse (Some (JString text)) = Inl (FailedToParse NoJsonFound)"
  using assms(1)
  by (simp add: parseAIResponse_def parse_body_def extract_conditions_def bind_def
        match_braces_no_open)

theorem C8_no_braces_witness:
  "CHR ''{'' \<notin> set ''I cannot assess these symptoms.''
   \<and> CHR ''}'' \<notin> set ''I cannot assess these symptoms.''
   \<and> parseAIResponse (Some (JString ''I cannot assess these symptoms.''))
       = Inl (FailedToParse NoJsonFound)"
proof -
  have a: "CHR ''{'' \<notin> set ''I cannot assess these symptoms.''" by simp
  have b: "CHR ''}'' \<notin> set ''I cannot assess these symptoms.''" by simp
  from C8_no_braces [OF a b] a b show ?thesis by simp
qed

text \<open>
  Claim C9. When the brace span parses as JSON and the parsed value has no
  \<^verbatim>\<open>conditions\<close> field, or the field is not an array, normalization fails with the
  invalid-structure error.
\<close>

theorem C9_invalid_structure:
  assumes "match_braces text = Some jsonMatch"
    and "JSON_parse jsonMatch = Some parsed"
    and "read_member parsed ''conditions'' = None
         \<or> \<not> isArray (read_member parsed ''conditions'')"
  shows "parseAIResponse (Some (JString text)) = Inl (FailedToParse InvalidStructure)"
proof -
  from match_braces_starts [OF assms(1)] obtain r where "jsonMatch = CHR ''{'' # r" by blast
  with JSON_parse_brace assms(2) obtain kvs where p: "parsed = JObject kvs" by blast
  from assms(3) have "\<not> isArray (read_member parsed ''conditions'')" by auto
  then have "extract_conditions (Some (JString text)) = Inl InvalidStructure"
    using assms(1,2) p
    by (simp add: extract_conditions_def bind_def read_prop_def)
  then show ?thesis by (simp add: parseAIResponse_def parse_body_def bind_def)
qed

theorem C9_invalid_structure_witness:
  \<open>match_braces ''Answer: {"diagnosis": "Flu"}'' = Some ''{"diagnosis": "Flu"}''
   \<and> JSON_parse ''{"diagnosis": "Flu"}'' = Some (JObject [(''diagnosis'', JString ''Flu'')])
   \<and> read_member (JObject [(''diagnosis'', JString ''Flu'')]) ''conditions'' = None
   \<and> parseAIResponse (Some (JString ''Answer: {"diagnosis": "Flu"}''))
       = Inl (FailedToParse InvalidStructure)
   \<and> match_braces ''{"conditions": "none"}'' = Some ''{"conditions": "none"}''
   \<and> JSON_parse ''{"conditions": "none"}'' = Some (JObject [(''conditions'', JString ''none'')])
   \<and> \<not> isArray (read_member (JObject [(''conditions'', JString ''none'')]) ''conditions'')
   \<and> parseAIResponse (Some (JString ''{"conditions": "none"}''))
       = Inl (FailedToParse InvalidStructure)\<close>
proof -
  have a1: \<open>match_braces ''Answer: {"diagnosis": "Flu"}'' = Some ''{"diagnosis": "Flu"}''\<close>
    by code_simp
  have a2: \<open>JSON_parse ''{"diagnosis": "Flu"}'' = Some (JObject [(''diagnosis'', JString ''Flu'')])\<close>
    by code_simp
  have a3: "read_member (JObject [(''diagnosis'', JString ''Flu'')]) ''conditions'' = None"
    by code_simp
  have b1: \<open>match_braces ''{"conditions": "none"}'' = Some ''{"conditions": "none"}''\<close>
    by code_simp
  have b2: \<open>JSON_parse ''{"conditions": "none"}'' = Some (JObject [(''conditions'', JString ''none'')])\<close>
    by code_simp
  have b3: "\<not> isArray (read_member (JObject [(''conditions'', JString ''none'')]) ''conditions'')"
    by code_simp
  note A = C9_invalid_structure [OF a1 a2 disjI1, OF a3]
  note B = C9_invalid_structure [OF b1 b2 disjI2, OF b3]
  from a1 a2 a3 A b1 b2 b3 B show ?thesis by blast
qed

subsection \<open>One record per element\<close>

text \<open>
  Claim C7, as amended. Take a response text whose brace span, from the first opening
  brace to the last closing brace, parses as JSON with a conditions array. When the
  callback throws on no element of the array (no element is null, and no element has a
  confidence without a primitive, that is an object with a member named
  \<^verbatim>\<open>toString\<close> or an array that holds such an object), the normalizer returns
  exactly one record per element, in the order of the array: the record at each position
  is what the callback returns for the element at that position. When the callback throws
  on some element, the normalization fails with the TypeError and returns no record.
\<close>

theorem C7_one_record_per_element:
  assumes "match_braces text = Some jsonMatch"
    and "JSON_parse jsonMatch = Some parsed"
    and "read_member parsed ''conditions'' = Some (JArray cs)"
  shows "((\<exists>c \<in> set cs. throws_on c) \<longrightarrow>
            parseAIResponse (Some (JString text)) = Inl (FailedToParse TypeError))
       \<and> (\<not> (\<exists>c \<in> set cs. throws_on c) \<longrightarrow>
            (\<exists>recs. parseAIResponse (Some (JString text)) = Inr recs
               \<and> length recs = length cs
               \<and> (\<forall>i < length cs. map_condition (cs ! i) = Inr (recs ! i))))"
proof -
  note e = extract_conditions_parsed [OF assms]
  note p = parseAIResponse_conditions [OF e]
  show ?thesis
  proof (cases "map_err map_condition cs")
    case (Inl err)
    then have "\<exists>c \<in> set cs. throws_on c"
      using map_err_map_condition_throws [of cs] by blast
    with p Inl show ?thesis by simp
  next
    case (Inr recs)
    then have n: "\<not> (\<exists>c \<in> set cs. throws_on c)"
      using map_err_map_condition_throws [of cs] by auto
    from Inr have "length recs = length cs"
      and "\<forall>i < length cs. map_condition (cs ! i) = Inr (recs ! i)"
      by (simp_all add: map_err_Inr)
    with p Inr n show ?thesis by simp
  qed
qed

text \<open>
  The theorem at an object with two conditions inside a sentence, and at an object whose
  second condition has a confidence without a primitive.
\<close>

theorem C7_one_record_per_element_witness:
  "match_braces c7_text = Some c7_span
   \<and> JSON_parse c7_span = Some (JObject [(''conditions'', JArray c7_conditions)])
   \<and> read_member (JObject [(''conditions'', JArray c7_conditions)]) ''conditions''
       = Some (JArray c7_conditions)
   \<and> parseAIResponse (Some (JString c7_text)) = Inr c7_records
   \<and> length c7_records = length c7_conditions
   \<and> map_condition (c7_conditions ! 0) = Inr (c7_records ! 0)
   \<and> map_condition (c7_conditions ! 1) = Inr (c7_records ! 1)
   \<and> match_braces c7_bad_text = Some c7_bad_text
   \<and> JSON_parse c7_bad_text = Some (JObject [(''conditions'', JArray c7_bad_conditions)])
   \<and> read_member (JObject [(''conditions'', JArray c7_bad_conditions)]) ''conditions''
       = Some (JArray c7_bad_conditions)
   \<and> throws_on (c7_bad_conditions ! 1)
   \<and> parseAIResponse (Some (JString c7_bad_text)) = Inl (FailedToParse TypeError)"
proof -
  have a: "match_braces c7_text = Some c7_span"
    unfolding c7_text_def c7_span_def by code_simp
  have b: "JSON_parse c7_span = Some (JObject [(''conditions'', JArray c7_conditions)])"
    unfolding c7_span_def c7_conditions_def by code_simp
  have c: "read_member (JObject [(''conditions'', JArray c7_conditions)]) ''conditions''
           = Some (JArray c7_conditions)"
    by (simp add: read_member_def get_field_def)
  have m: "read_member (JObject kvs) k = map_of (rev kvs) k" for kvs k
    by (simp add: read_member_def get_field_def)
  have n: "\<not> (\<exists>c \<in> set c7_conditions. throws_on c)"
    by (simp add: c7_conditions_def throws_on_def m)
  from C7_one_record_per_element [OF a b c] n obtain recs where
    r: "parseAIResponse (Some (JString c7_text)) = Inr recs"
    and l: "length recs = length c7_conditions"
    and i: "\<forall>i < length c7_conditions. map_condition (c7_conditions ! i) = Inr (recs ! i)"
    by blast
  have v: "parseAIResponse (Some (JString c7_text)) = Inr c7_records"
    unfolding c7_text_def c7_records_def blank_record_def by code_simp
  with r have eq: "recs = c7_records" by simp
  have len: "0 < length c7_conditions" "1 < length c7_conditions"
    by (simp_all add: c7_conditions_def)
  from i len eq have i0: "map_condition (c7_conditions ! 0) = Inr (c7_records ! 0)"
    and i1: "map_condition (c7_conditions ! 1) = Inr (c7_records ! 1)" by blast+
  from l eq have l': "length c7_records = length c7_conditions" by simp
  have a': "match_braces c7_bad_text = Some c7_bad_text"
    unfolding c7_bad_text_def by code_simp
  have b': "JSON_parse c7_bad_text = Some (JObject [(''conditions'', JArray c7_bad_conditions)])"
    unfolding c7_bad_text_def c7_bad_conditions_def by code_simp
  have c': "read_member (JObject [(''conditions'', JArray c7_bad_conditions)]) ''conditions''
            = Some (JArray c7_bad_conditions)"
    by (simp add: read_member_def get_field_def)
  have t: "throws_on (c7_bad_conditions ! 1)"
    by (simp add: c7_bad_conditions_def throws_on_def m get_field_def)
  then have "\<exists>c \<in> set c7_bad_conditions. throws_on c"
    by (simp add: c7_bad_conditions_def)
  with C7_one_record_per_element [OF a' b' c']
  have f: "parseAIResponse (Some (JString c7_bad_text)) = Inl (FailedToParse TypeError)" by blast
  from a b c v l' i0 i1 a' b' c' t f show ?thesis by blast
qed

text \<open>
  The claim as the specification words it fails at a conditions array that holds null,
  and at one whose element has a confidence without a primitive: each text is a single
  well-formed JSON object, and no record is returned.
\<close>

theorem C7_counterexample:
  \<open>JSON_parse ''{"conditions": [null]}'' = Some (JObject [(''conditions'', JArray [JNull])])
   \<and> parseAIResponse (Some (JString ''{"conditions": [null]}'')) = Inl (FailedToParse TypeError)
   \<and> JSON_parse ''{"conditions": [{"confidence": {"toString": 1}}]}''
       = Some (JObject [(''conditions'',
            JArray [JObject [(''confidence'', JObject [(''toString'', JNumber 1)])]])])
   \<and> parseAIResponse (Some (JString ''{"conditions": [{"confidence": {"toString": 1}}]}''))
       = Inl (FailedToParse TypeError)\<close>
  by code_simp

subsection \<open>Confidence\<close>

text \<open>
  Claim C2, as amended. For every element of the parsed conditions array, the output
  confidence is \<^verbatim>\<open>clamp(value || 0.5, 0, 1)\<close>: a confidence that is missing or falsy
  (the number 0 among them) gives 0.5, and a present non-zero numeric confidence, negative
  or above 1 included, is clamped into the unit interval.
\<close>

theorem C2_confidence:
  assumes "extract_conditions (Some (JString text)) = Inr cs"
    and "parseAIResponse (Some (JString text)) = Inr recs"
    and "i < length cs"
  shows "(\<not> truthy (read_member (cs ! i) ''confidence'') \<longrightarrow> confidence (recs ! i) = Num (1 / 2))
       \<and> (\<forall>x. read_member (cs ! i) ''confidence'' = Some (JNumber x) \<longrightarrow> x \<noteq> 0 \<longrightarrow>
              confidence (recs ! i) = Num (min (max x 0) 1))"
proof -
  have r: "map_condition (cs ! i) = Inr (recs ! i)"
    by (rule record_of_element [OF assms])
  show ?thesis using confidence_falsy [OF r] confidence_number [OF r] by blast
qed

text \<open>The theorem at a response with five elements: 1.4, -2, 0.25, no confidence, and 0.\<close>

theorem C2_confidence_witness:
  "extract_conditions (Some (JString c2_text)) = Inr c2_conditions
   \<and> parseAIResponse (Some (JString c2_text)) = Inr (c2_records)
   \<and> confidence (c2_records ! 0) = Num 1
   \<and> confidence (c2_records ! 1) = Num 0
   \<and> confidence (c2_records ! 2) = Num (1 / 4)
   \<and> confidence (c2_records ! 3) = Num (1 / 2)
   \<and> confidence (c2_records ! 4) = Num (1 / 2)"
proof -
  have e: "extract_conditions (Some (JString c2_text)) = Inr c2_conditions"
    unfolding c2_text_def c2_conditions_def by code_simp
  have p: "parseAIResponse (Some (JString c2_text)) = Inr (c2_records)"
    unfolding c2_text_def c2_records_def blank_record_def by code_simp
  have m: "read_member (JObject kvs) k = map_of (rev kvs) k" for kvs k
    by (simp add: read_member_def get_field_def)
  have len: "0 < length c2_conditions" "1 < length c2_conditions" "2 < length c2_conditions"
    "3 < length c2_conditions" "4 < length c2_conditions"
    by (simp_all add: c2_conditions_def)
  have n0: "read_member (c2_conditions ! 0) ''confidence'' = Some (JNumber (7 / 5))"
    and n1: "read_member (c2_conditions ! 1) ''confidence'' = Some (JNumber (- 2))"
    and n2: "read_member (c2_conditions ! 2) ''confidence'' = Some (JNumber (1 / 4))"
    and n3: "\<not> truthy (read_member (c2_conditions ! 3) ''confidence'')"
    and n4: "\<not> truthy (read_member (c2_conditions ! 4) ''confidence'')"
    by (simp_all add: c2_conditions_def m)
  have "confidence (c2_records ! 0) = Num (min (max (7 / 5) 0) 1)"
    using C2_confidence [OF e p len(1), THEN conjunct2, rule_format, OF n0] by simp
  moreover have "confidence (c2_records ! 1) = Num (min (max (- 2) 0) 1)"
    using C2_confidence [OF e p len(2), THEN conjunct2, rule_format, OF n1] by simp
  moreover have "confidence (c2_records ! 2) = Num (min (max (1 / 4) 0) 1)"
    using C2_confidence [OF e p len(3), THEN conjunct2, rule_format, OF n2] by simp
  moreover have "confidence (c2_records ! 3) = Num (1 / 2)"
    using C2_confidence [OF e p len(4), THEN conjunct1, rule_format, OF n3] .
  moreover have "confidence (c2_records ! 4) = Num (1 / 2)"
    using C2_confidence [OF e p len(5), THEN conjunct1, rule_format, OF n4] .
  ultimately show ?thesis using e p by simp
qed

text \<open>
  The claim as the specification words it fails at a confidence of 0: the specification's
  rule keeps 0, the normalizer returns 0.5.
\<close>

theorem C2_counterexample:
  \<open>parseAIResponse (Some (JString ''{"conditions": [{"confidence": 0}]}''))
     = Inr [\<lparr> condition = None, confidence = Num (1 / 2), urgency = JString ''low'',
               steps = JArray [], description = JString '''' \<rparr>]
   \<and> spec_confidence (Some (JNumber 0)) = Num 0\<close>
  by code_simp

subsection \<open>Urgency\<close>

text \<open>
  Claim C5, as amended. For every element of the parsed conditions array, a missing
  urgency gives \<^verbatim>\<open>low\<close>, a present truthy urgency (an unrecognized string included) is
  passed through unchanged, and a present falsy urgency (the empty string, null, false
  or 0) gives \<^verbatim>\<open>low\<close>.
\<close>

theorem C5_urgency:
  assumes "extract_conditions (Some (JString text)) = Inr cs"
    and "parseAIResponse (Some (JString text)) = Inr recs"
    and "i < length cs"
  shows "(read_member (cs ! i) ''urgency'' = None \<longrightarrow> urgency (recs ! i) = JString ''low'')
       \<and> (\<forall>v. read_member (cs ! i) ''urgency'' = Some v \<longrightarrow> truthy (Some v) \<longrightarrow> urgency (recs ! i) = v)
       \<and> (\<forall>v. read_member (cs ! i) ''urgency'' = Some v \<longrightarrow> \<not> truthy (Some v) \<longrightarrow>
              urgency (recs ! i) = JString ''low'')"
proof -
  have r: "map_condition (cs ! i) = Inr (recs ! i)"
    by (rule record_of_element [OF assms])
  show ?thesis using urgency_falsy [OF r] urgency_truthy [OF r] by auto
qed

text \<open>The theorem at a response with three elements.\<close>

theorem C5_urgency_witness:
  "extract_conditions (Some (JString c5_text)) = Inr c5_conditions
   \<and> parseAIResponse (Some (JString c5_text)) = Inr (c5_records)
   \<and> urgency (c5_records ! 0) = JString ''low''
   \<and> urgency (c5_records ! 1) = JString ''critical''
   \<and> urgency (c5_records ! 2) = JString ''low''"
proof -
  have e: "extract_conditions (Some (JString c5_text)) = Inr c5_conditions"
    unfolding c5_text_def c5_conditions_def by code_simp
  have p: "parseAIResponse (Some (JString c5_text)) = Inr (c5_records)"
    unfolding c5_text_def c5_records_def blank_record_def by code_simp
  have m: "read_member (JObject kvs) k = map_of (rev kvs) k" for kvs k
    by (simp add: read_member_def get_field_def)
  have len: "0 < length c5_conditions" "1 < length c5_conditions" "2 < length c5_conditions"
    by (simp_all add: c5_conditions_def)
  have u0: "read_member (c5_conditions ! 0) ''urgency'' = None"
    and u1: "read_member (c5_conditions ! 1) ''urgency'' = Some (JString ''critical'')"
    and t1: "truthy (Some (JString ''critical''))"
    and u2: "read_member (c5_conditions ! 2) ''urgency'' = Some (JString [])"
    and t2: "\<not> truthy (Some (JString []))"
    by (simp_all add: c5_conditions_def m)
  have "urgency (c5_records ! 0) = JString ''low''"
    using C5_urgency [OF e p len(1)] u0 by blast
  moreover have "urgency (c5_records ! 1) = JString ''critical''"
    using C5_urgency [OF e p len(2)] u1 t1 by blast
  moreover have "urgency (c5_records ! 2) = JString ''low''"
    using C5_urgency [OF e p len(3)] u2 t2 by blast
  ultimately show ?thesis using e p by simp
qed

text \<open>
  The claim as the specification words it fails at the empty string: it is present, and
  the record has \<^verbatim>\<open>low\<close> instead.
\<close>

theorem C5_counterexample:
  \<open>parseAIResponse (Some (JString ''{"conditions": [{"urgency": ""}]}''))
     = Inr [\<lparr> condition = None, confidence = Num (1 / 2), urgency = JString ''low'',
               steps = JArray [], description = JString '''' \<rparr>]
   \<and> read_member (JObject [(''urgency'', JString '''')]) ''urgency'' = Some (JString '''')
   \<and> JString ''low'' \<noteq> JString ''''\<close>
  by code_simp

subsection \<open>The invariant of a record\<close>

text \<open>
  Claim C4, as amended. Every record the normalizer produces has a confidence that is
  NaN or lies in the unit interval, and it lies in the unit interval whenever the
  element's confidence is absent, null, a boolean or a number. Its urgency is
  \<^verbatim>\<open>low\<close> when the element's urgency is absent or falsy, and a given urgency that is one
  of the three enum values is kept. So the specification's invariant holds for every
  element with such a confidence and such an urgency; a value outside the enum is not
  replaced.
\<close>

theorem C4_invariant:
  assumes "extract_conditions (Some (JString text)) = Inr cs"
    and "parseAIResponse (Some (JString text)) = Inr recs"
    and "i < length cs"
  shows "(confidence (recs ! i) = NaN \<or> in_unit (confidence (recs ! i)))
       \<and> (plain_confidence (read_member (cs ! i) ''confidence'') \<longrightarrow> in_unit (confidence (recs ! i)))
       \<and> (\<not> truthy (read_member (cs ! i) ''urgency'') \<longrightarrow> urgency (recs ! i) = JString ''low'')
       \<and> (\<forall>u. read_member (cs ! i) ''urgency'' = Some u \<longrightarrow> u \<in> set urgency_enum \<longrightarrow>
              urgency (recs ! i) = u)
       \<and> (plain_confidence (read_member (cs ! i) ''confidence'') \<longrightarrow>
            (\<not> truthy (read_member (cs ! i) ''urgency'')
             \<or> (\<exists>u. read_member (cs ! i) ''urgency'' = Some u \<and> u \<in> set urgency_enum)) \<longrightarrow>
            spec_invariant (recs ! i))"
proof -
  have r: "map_condition (cs ! i) = Inr (recs ! i)"
    by (rule record_of_element [OF assms])
  have 1: "confidence (recs ! i) = NaN \<or> in_unit (confidence (recs ! i))"
    by (rule confidence_NaN_or_unit [OF r])
  have 2: "plain_confidence (read_member (cs ! i) ''confidence'') \<longrightarrow> in_unit (confidence (recs ! i))"
    using confidence_plain [OF r] by blast
  have 3: "\<not> truthy (read_member (cs ! i) ''urgency'') \<longrightarrow> urgency (recs ! i) = JString ''low''"
    using urgency_falsy [OF r] by blast
  have 4: "\<forall>u. read_member (cs ! i) ''urgency'' = Some u \<longrightarrow> u \<in> set urgency_enum \<longrightarrow>
              urgency (recs ! i) = u"
    using urgency_truthy [OF r] urgency_enum_truthy by blast
  have low: "JString ''low'' \<in> set urgency_enum"
    by (simp add: urgency_enum_def)
  have 5: "plain_confidence (read_member (cs ! i) ''confidence'') \<longrightarrow>
            (\<not> truthy (read_member (cs ! i) ''urgency'')
             \<or> (\<exists>u. read_member (cs ! i) ''urgency'' = Some u \<and> u \<in> set urgency_enum)) \<longrightarrow>
            spec_invariant (recs ! i)"
    using 2 3 4 low unfolding spec_invariant_def by metis
  from 1 2 3 4 5 show ?thesis by blast
qed

text \<open>The theorem at a response with two elements.\<close>

theorem C4_invariant_witness:
  "extract_conditions (Some (JString c4_text)) = Inr c4_conditions
   \<and> parseAIResponse (Some (JString c4_text)) = Inr (c4_records)
   \<and> spec_invariant (c4_records ! 0)
   \<and> urgency (c4_records ! 0) = JString ''medium''
   \<and> spec_invariant (c4_records ! 1)
   \<and> urgency (c4_records ! 1) = JString ''low''"
proof -
  have e: "extract_conditions (Some (JString c4_text)) = Inr c4_conditions"
    unfolding c4_text_def c4_conditions_def by code_simp
  have p: "parseAIResponse (Some (JString c4_text)) = Inr (c4_records)"
    unfolding c4_text_def c4_records_def blank_record_def by code_simp
  have m: "read_member (JObject kvs) k = map_of (rev kvs) k" for kvs k
    by (simp add: read_member_def get_field_def)
  have len: "0 < length c4_conditions" "1 < length c4_conditions"
    by (simp_all add: c4_conditions_def)
  have c0: "plain_confidence (read_member (c4_conditions ! 0) ''confidence'')"
    and u0: "read_member (c4_conditions ! 0) ''urgency'' = Some (JString ''medium'')"
    and c1: "plain_confidence (read_member (c4_conditions ! 1) ''confidence'')"
    and u1: "\<not> truthy (read_member (c4_conditions ! 1) ''urgency'')"
    by (simp_all add: c4_conditions_def m)
  have med: "JString ''medium'' \<in> set urgency_enum"
    by (simp add: urgency_enum_def)
  note A = C4_invariant [OF e p len(1)]
  note B = C4_invariant [OF e p len(2)]
  have "spec_invariant (c4_records ! 0)"
    using A c0 u0 med by blast
  moreover have "urgency (c4_records ! 0) = JString ''medium''"
    using A u0 med by blast
  moreover have "spec_invariant (c4_records ! 1)"
    using B c1 u1 by blast
  moreover have "urgency (c4_records ! 1) = JString ''low''"
    using B u1 by blast
  ultimately show ?thesis using e p by simp
qed

text \<open>
  The invariant as the specification words it fails at an element whose confidence is
  an object and whose urgency is no enum value: the record has the confidence NaN and
  the urgency as given.
\<close>

theorem C4_counterexample:
  \<open>parseAIResponse (Some (JString ''{"conditions": [{"confidence": {}, "urgency": "banana"}]}''))
     = Inr [c4_bad_record]
   \<and> \<not> in_unit (confidence c4_bad_record)
   \<and> urgency c4_bad_record \<notin> set urgency_enum
   \<and> \<not> spec_invariant c4_bad_record\<close>
  by code_simp

section \<open>The claims on the entry point\<close>

text \<open>
  Claim C1 says that \<open>diagnose\<close> returns the fallback records whenever the provider
  call fails or the service is unconfigured. With a configuration the fallback is returned
  (\<open>diagnose_falls_back\<close>, \<open>AIService_diagnose_fails\<close>). Without one it is not: with no
  variable set, no request is sent and the constructor's error for the missing key is
  the result of \<open>diagnose\<close>, whatever the network and the symptoms are.
\<close>

theorem C1_unconfigured_throws:
  "diagnose empty_env net None symptoms
     = (\<lparr> sent = [], result = Inl (ApiKeyNotFound ''gemini'') \<rparr>, None)"
  by (rule diagnose_unconfigured [OF new_AIService_empty_env])

text \<open>
  Claim C3 says that a request with images is rendered from the image-aware template. The
  method \<open>AIService_diagnose\<close> does choose the template by the images alone
  (\<open>AIService_diagnose_template\<close>), but the entry point never passes it the images
  (\<open>handleSubmitSymptoms_text_only\<close>): for one symptom and one uploaded image, the
  request that is sent has the text-only template and no inline image, where the method
  called with the image sends the image-aware template.
\<close>

theorem C3_images_dropped:
  "sent (fst (handleSubmitSymptoms gemini_env net None [''Rash''] [photo]))
     = [GeminiRequest (Replace MEDICAL_PROMPT ''Rash'') []]
   \<and> sent (AIService_diagnose gemini_env net [''Rash''] [photo])
     = [GeminiRequest (Replace MEDICAL_PROMPT_WITH_IMAGES ''Rash'')
          [(''image/png'', ''iVBORw0KGgo='')]]"
proof -
  have s: "AI_SERVICE gemini_env = ''gemini''"
    by (simp add: AI_SERVICE_def gemini_env_def empty_env_def)
  have n: "new_AIService gemini_env = Inr (Config (Some ''key'') None None)"
    unfolding new_AIService_def s
    by (simp add: validateConfig_def AI_CONFIG_def field_present_def present_def
        gemini_env_def empty_env_def)
  have g: "fst (getAIService gemini_env None) = Some (Config (Some ''key'') None None)"
    by (simp add: getAIService_def n)
  show ?thesis
    by (simp add: handleSubmitSymptoms_def diagnose_sent g AIService_diagnose_sent s
        inline_parts_def photo_def)
qed

section \<open>The claim on the form\<close>

text \<open>
  Claim C10. A submission hands \<^verbatim>\<open>onSubmit\<close> the selected symptoms followed by the
  free text split on commas, each token trimmed and the empty tokens removed; when that
  list is empty, \<^verbatim>\<open>onSubmit\<close> is not called and the form alerts instead. The list is
  the one the specification's words describe (\<open>spec_symptoms\<close>), which they determine
  (\<open>spec_symptoms_unique\<close>).
\<close>

theorem C10_submitted_symptoms:
  "\<exists>symptoms. spec_symptoms selected freeText symptoms
     \<and> handleSubmit selected freeText images =
         (if symptoms = [] then Alert else OnSubmit symptoms images)"
  using handleSubmit_eq [of selected freeText images]
  by (auto simp: spec_symptoms_iff Let_def)

text \<open>
  The theorem at a checked symptom with a free text of five pieces, two of them blank, and
  at a free text of blanks and a comma with nothing checked.
\<close>

theorem C10_submitted_symptoms_witness:
  "spec_symptoms [''Fever''] c10_text [''Fever'', ''headache'', ''sore throat'', ''dizzy'']
   \<and> handleSubmit [''Fever''] c10_text [photo]
       = OnSubmit [''Fever'', ''headache'', ''sore throat'', ''dizzy''] [photo]
   \<and> spec_symptoms [] '' , '' []
   \<and> handleSubmit [] '' , '' [photo] = Alert"
proof -
  have p1: "pieces_of CHR '','' c10_text [''headache'', ''  sore throat '', '' '', ''dizzy'', '''']"
    by (simp add: pieces_of_def c10_text_def)
  have sp: "js_space CHR '' ''" by (simp add: js_space_def)
  have ns: "\<not> js_space CHR ''h''" "\<not> js_space CHR ''e''" "\<not> js_space CHR ''s''"
    "\<not> js_space CHR ''t''" "\<not> js_space CHR ''d''" "\<not> js_space CHR ''y''"
    by (simp_all add: js_space_def)
  have t1: "trimmed_of ''headache'' ''headache''"
    unfolding trimmed_of_def using ns by (intro conjI exI [of _ "[]"]) simp_all
  have t2: "trimmed_of ''  sore throat '' ''sore throat''"
    unfolding trimmed_of_def using ns sp
    by (intro conjI exI [of _ "''  ''"] exI [of _ "'' ''"]) simp_all
  have t3: "trimmed_of '' '' ''''"
    unfolding trimmed_of_def using sp by (intro conjI exI [of _ "'' ''"] exI [of _ "[]"]) simp_all
  have t4: "trimmed_of ''dizzy'' ''dizzy''"
    unfolding trimmed_of_def using ns by (intro conjI exI [of _ "[]"]) simp_all
  have t5: "trimmed_of '''' ''''"
    unfolding trimmed_of_def by (intro conjI exI [of _ "[]"]) simp_all
  have s1: "spec_symptoms [''Fever''] c10_text [''Fever'', ''headache'', ''sore throat'', ''dizzy'']"
    unfolding spec_symptoms_def
    by (intro exI [of _ "[''headache'', ''  sore throat '', '' '', ''dizzy'', '''']"]
        exI [of _ "[''headache'', ''sore throat'', '''', ''dizzy'', '''']"])
      (simp add: p1 t1 t2 t3 t4 t5)
  have p2: "pieces_of CHR '','' '' , '' ['' '', '' '']" by (simp add: pieces_of_def)
  have s2: "spec_symptoms [] '' , '' []"
    unfolding spec_symptoms_def
    by (intro exI [of _ "['' '', '' '']"] exI [of _ "['''', '''']"]) (simp add: p2 t3)
  from C10_submitted_symptoms [of "[''Fever'']" c10_text "[photo]"] obtain syms where
    a: "spec_symptoms [''Fever''] c10_text syms"
    and b: "handleSubmit [''Fever''] c10_text [photo] = (if syms = [] then Alert else OnSubmit syms [photo])"
    by blast
  from spec_symptoms_unique [OF a s1] b
  have r1: "handleSubmit [''Fever''] c10_text [photo]
            = OnSubmit [''Fever'', ''headache'', ''sore throat'', ''dizzy''] [photo]" by simp
  from C10_submitted_symptoms [of "[]" "'' , ''" "[photo]"] obtain syms' where
    a': "spec_symptoms [] '' , '' syms'"
    and b': "handleSubmit [] '' , '' [photo] = (if syms' = [] then Alert else OnSubmit syms' [photo])"
    by blast
  from spec_symptoms_unique [OF a' s2] b' have r2: "handleSubmit [] '' , '' [photo] = Alert" by simp
  from s1 r1 s2 r2 show ?thesis by blast
qed

end
